theory Spec2Isabelle
  imports Main "HOL-Library.Word"
begin

unbundle bit_operations_syntax

section \<open>farfetch: cross-process page transfer (user/module/farfetch/farfetch.c)\<close>

text \<open>
  The module has one function with logic, \<^verbatim>\<open>farfetch\<close>. It is embedded here for a
  64-bit kernel: \<^verbatim>\<open>size_t\<close>, \<^verbatim>\<open>unsigned long\<close> and \<^verbatim>\<open>long\<close> are 64-bit words
  (a \<^verbatim>\<open>long\<close> is read in two's complement, so \<^verbatim>\<open>-EPERM\<close> is the word \<open>- 1\<close>),
  user pointers are 64-bit words with byte arithmetic, \<^verbatim>\<open>unsigned int\<close>, \<^verbatim>\<open>pid_t\<close>
  and \<^verbatim>\<open>uid_t\<close> are 32-bit words.
\<close>

type_synonym size_t = "64 word"
type_synonym long = "64 word"
type_synonym uaddr = "64 word"
type_synonym cmd_t = "32 word"
type_synonym pid_t = "32 word"
type_synonym uid_t = "32 word"
type_synonym byte = "8 word"

text \<open>Kernel objects are named by numbers: a page frame, a task, an address space.\<close>

type_synonym page = nat
type_synonym task = nat
type_synonym mm = nat

subsection \<open>Constants of the kernel headers\<close>

text \<open>
  Modelled from the spec: the kernel headers that define \<^verbatim>\<open>PAGE_SIZE\<close>, \<^verbatim>\<open>PAGE_MASK\<close>,
  \<^verbatim>\<open>MAX_RW_COUNT\<close>, \<^verbatim>\<open>SIZE_MAX\<close>, \<^verbatim>\<open>IS_ERR_VALUE\<close> and the errno numbers are not
  among the sources. The page is the spec's "fixed-size unit of addressable memory
  (commonly 4096 bytes)" and \<^verbatim>\<open>MAX_RW_COUNT\<close> its "fixed maximum single-transfer size".
  The values are those of a 64-bit Linux kernel with 4 KiB pages: \<^verbatim>\<open>PAGE_MASK\<close> is
  \<^verbatim>\<open>~(PAGE_SIZE - 1)\<close>, \<^verbatim>\<open>MAX_RW_COUNT\<close> is \<^verbatim>\<open>INT_MAX & PAGE_MASK\<close>, \<^verbatim>\<open>SIZE_MAX\<close> is
  \<^verbatim>\<open>~0UL\<close> and \<^verbatim>\<open>MAX_ERRNO\<close> is 4095.
\<close>

definition PAGE_SIZE :: size_t where
  "PAGE_SIZE = 4096"

definition PAGE_MASK :: size_t where
  "PAGE_MASK = NOT (PAGE_SIZE - 1)"

definition INT_MAX :: size_t where
  "INT_MAX = 2147483647"

definition MAX_RW_COUNT :: size_t where
  "MAX_RW_COUNT = INT_MAX AND PAGE_MASK"

definition SIZE_MAX :: size_t where
  "SIZE_MAX = - 1"

definition MAX_ERRNO :: nat where
  "MAX_ERRNO = 4095"

text \<open>
  Modelled from the spec: \<^verbatim>\<open>linux/farfetch.h\<close> is not among the sources. It declares the
  two commands of the spec, Read and Write; they are numbered 0 and 1 here, and the
  results below use only that they differ.
\<close>

definition FAR_READ :: cmd_t where
  "FAR_READ = 0"

definition FAR_WRITE :: cmd_t where
  "FAR_WRITE = 1"

definition EPERM :: long where "EPERM = 1"
definition ESRCH :: long where "ESRCH = 3"
definition EINTR :: long where "EINTR = 4"
definition ENOMEM :: long where "ENOMEM = 12"
definition EFAULT :: long where "EFAULT = 14"
definition EINVAL :: long where "EINVAL = 22"

text \<open>\<^verbatim>\<open>IS_ERR_VALUE(x)\<close> is \<^verbatim>\<open>(unsigned long)x >= (unsigned long)-MAX_ERRNO\<close>.\<close>

definition IS_ERR_VALUE :: "long \<Rightarrow> bool" where
  "IS_ERR_VALUE x = (- (of_nat MAX_ERRNO) \<le> x)"

definition min3 :: "size_t \<Rightarrow> size_t \<Rightarrow> size_t \<Rightarrow> size_t" where
  "min3 x y z = min (min x y) z"

subsection \<open>Memory, events and the environment\<close>

text \<open>
  The memory the function can change: the caller's user memory (\<open>None\<close> at an address
  the caller cannot access), the contents of the page frames (by offset in the page), and
  the dirty flag of each frame.
\<close>

record mem =
  umem :: "uaddr \<Rightarrow> byte option"
  pmem :: "page \<Rightarrow> nat \<Rightarrow> byte"
  dirty :: "page \<Rightarrow> bool"

text \<open>
  Every call into the kernel is recorded, in program order. \<open>WARN n\<close> is a
  \<^verbatim>\<open>WARN_ON\<close> whose condition held, at source line \<open>n\<close>. \<open>GetUserPages\<close> carries the
  start address, the number of pages asked for, whether \<^verbatim>\<open>FOLL_WRITE\<close> is set
  (\<^verbatim>\<open>FOLL_FORCE\<close> always is) and the pages it pinned.
  The copy events carry the user address, the page, the offset in the page, the length
  and the number of bytes that could not be copied.
\<close>

datatype event =
    WARN nat
  | FindGetPid pid_t
  | GetPidTask
  | PutPid
  | GetTaskMm "mm option"
  | PutTaskStruct
  | KmallocArray nat bool
  | Kfree
  | Mmput mm
  | MmapReadLockKillable bool
  | MmapReadUnlock
  | GetUserPages uaddr nat bool "page list"
  | Kmap page
  | Kunmap page
  | CopyToUser uaddr page nat nat nat
  | CopyFromUser uaddr page nat nat nat
  | SetPageDirtyLock page
  | PutPage page

text \<open>
  Modelled from the spec: the kernel functions the module calls are not among the
  sources. The environment of one call is what they answer. For the pin call the spec
  gives the contract: it yields the first \<open>actual_count\<close> pages of the window, with
  \<open>actual_count\<close> anywhere in \<open>[0, page_count]\<close>, or it fails, pins nothing and hands
  back its error code. So a failing pin call \<open>PinFails n\<close> returns the error code
  \<open>- (1 + n mod MAX_ERRNO)\<close>, which ranges over the whole errno range and nothing
  else, and a pin call that does not fail pins a prefix of \<open>PinAvail ps\<close>, at most the
  number of pages asked for, possibly none.
\<close>

datatype pin_answer = PinFails nat | PinAvail "page list"

record env =
  euid :: uid_t
  pid_task :: "pid_t \<Rightarrow> task option"
  task_mm :: "task \<Rightarrow> mm option"
  kmalloc_ok :: bool
  lock_ok :: bool
  pin :: pin_answer
  pin_locked :: bool

text \<open>\<^verbatim>\<open>WARN_ON(c)\<close>: an event when the condition holds, nothing otherwise.\<close>

definition WARN_ON :: "nat \<Rightarrow> bool \<Rightarrow> event list" where
  "WARN_ON line c = (if c then [WARN line] else [])"

text \<open>
  \<^verbatim>\<open>get_user_pages_remote\<close>: the return value and the filled part of the page array.
\<close>

definition get_user_pages_remote :: "env \<Rightarrow> size_t \<Rightarrow> long \<times> page list" where
  "get_user_pages_remote e nr_pages =
     (case pin e of
        PinFails n \<Rightarrow> (- (1 + of_nat (n mod MAX_ERRNO)), [])
      | PinAvail ps \<Rightarrow> (of_nat (length (take (unat nr_pages) ps)), take (unat nr_pages) ps))"

text \<open>
  Modelled from the spec: a user copy fails when the caller's buffer cannot be read or
  written. As in the kernel, the copy stops at the first inaccessible user byte and
  returns the number of bytes left, and \<^verbatim>\<open>copy_from_user\<close> zero-fills the part of the
  destination it could not copy.
\<close>

definition ucopy_ok :: "(uaddr \<Rightarrow> byte option) \<Rightarrow> uaddr \<Rightarrow> nat \<Rightarrow> nat" where
  "ucopy_ok um a n = length (takeWhile (\<lambda>j. um (a + of_nat j) \<noteq> None) [0..<n])"

definition copy_to_user :: "mem \<Rightarrow> uaddr \<Rightarrow> page \<Rightarrow> nat \<Rightarrow> nat \<Rightarrow> nat \<times> mem" where
  "copy_to_user m dst p off n =
     (let k = ucopy_ok (umem m) dst n
      in (n - k,
          m\<lparr>umem := (\<lambda>a. if unat (a - dst) < k
                           then Some (pmem m p (off + unat (a - dst)))
                           else umem m a)\<rparr>))"

definition copy_from_user :: "mem \<Rightarrow> page \<Rightarrow> nat \<Rightarrow> uaddr \<Rightarrow> nat \<Rightarrow> nat \<times> mem" where
  "copy_from_user m p off src n =
     (let k = ucopy_ok (umem m) src n
      in (n - k,
          m\<lparr>pmem := (\<lambda>q ofs. if q = p \<and> off \<le> ofs \<and> ofs < off + n
                               then (if ofs - off < k
                                     then (case umem m (src + of_nat (ofs - off)) of
                                             Some b \<Rightarrow> b | None \<Rightarrow> 0)
                                     else 0)
                               else pmem m q ofs)\<rparr>))"

definition set_page_dirty_lock :: "mem \<Rightarrow> page \<Rightarrow> mem" where
  "set_page_dirty_lock m p = m\<lparr>dirty := (dirty m)(p := True)\<rparr>"

subsection \<open>The transfer window (lines 29 to 37)\<close>

definition window :: "size_t \<Rightarrow> size_t \<Rightarrow> size_t \<times> size_t \<times> size_t" where
  "window target_addr len0 =
     (let page_off = target_addr AND NOT PAGE_MASK;
          len = min3 len0 MAX_RW_COUNT (SIZE_MAX - page_off - PAGE_SIZE + 1);
          nr_pages = (page_off + len + PAGE_SIZE - 1) div PAGE_SIZE
      in (page_off, len, nr_pages))"

subsection \<open>The per-page loop (lines 90 to 119)\<close>

text \<open>
  One iteration per entry of the page array, in order. The result is \<^verbatim>\<open>ret\<close>, the final
  \<^verbatim>\<open>iter\<close>, the memory and the events. The loop stops at the first non-zero \<^verbatim>\<open>ret\<close>.
\<close>

fun transfer_loop ::
  "cmd_t \<Rightarrow> uaddr \<Rightarrow> size_t \<Rightarrow> page list \<Rightarrow> size_t \<Rightarrow> uaddr \<Rightarrow> mem
     \<Rightarrow> long \<times> uaddr \<times> mem \<times> event list" where
  "transfer_loop cmd addr len [] page_off iter m = (0, iter, m, [])"
| "transfer_loop cmd addr len (p # ps) page_off iter m =
     (let to_copy = min (len - (iter - addr)) (PAGE_SIZE - page_off);
          (ret, m', evs) =
            (if cmd = FAR_READ then
               (let (left, m1) = copy_to_user m iter p (unat page_off) (unat to_copy)
                in (if left \<noteq> 0 then - EFAULT else 0, m1,
                    [Kmap p, CopyToUser iter p (unat page_off) (unat to_copy) left, Kunmap p]))
             else if cmd = FAR_WRITE then
               (let (left, m1) = copy_from_user m p (unat page_off) iter (unat to_copy)
                in (if left \<noteq> 0
                    then (- EFAULT, m1,
                          [Kmap p, CopyFromUser iter p (unat page_off) (unat to_copy) left,
                           Kunmap p])
                    else (0, set_page_dirty_lock m1 p,
                          [Kmap p, CopyFromUser iter p (unat page_off) (unat to_copy) left,
                           SetPageDirtyLock p, Kunmap p])))
             else (- EINVAL, m, []))
      in if ret \<noteq> 0 then (ret, iter, m', evs)
         else (let (ret', iter', m'', evs') =
                     transfer_loop cmd addr len ps 0 (iter + to_copy) m'
               in (ret', iter', m'', evs @ evs')))"

subsection \<open>The system call (lines 17 to 127)\<close>

text \<open>
  The part after a pin call that did not fail (lines 82 to 126): \<open>ret\<close> is the count the
  pin call returned and \<open>pages\<close> the page array.
\<close>

definition farfetch_pinned ::
  "cmd_t \<Rightarrow> uaddr \<Rightarrow> size_t \<Rightarrow> size_t \<Rightarrow> size_t \<Rightarrow> long \<Rightarrow> page list \<Rightarrow> mem
     \<Rightarrow> long \<times> mem \<times> event list" where
  "farfetch_pinned cmd addr page_off len0 nr_pages0 ret pages m =
     (let (nr_pages, len, w84) =
            (if ret < nr_pages0
             then (ret, ret * PAGE_SIZE - page_off,
                   WARN_ON 84 (ret * PAGE_SIZE - page_off > len0))
             else (nr_pages0, len0, []));
          (ret', iter, m', evs) =
            transfer_loop cmd addr len (take (unat nr_pages) pages) page_off addr m;
          w120 = WARN_ON 120 (ret' = 0 \<and> iter - addr \<noteq> len)
      in (if ret' \<noteq> 0 then ret' else len, m',
          w84 @ evs @ w120 @ map PutPage (take (unat nr_pages) pages) @ [Kfree]))"

definition farfetch ::
  "env \<Rightarrow> cmd_t \<Rightarrow> uaddr \<Rightarrow> pid_t \<Rightarrow> size_t \<Rightarrow> size_t \<Rightarrow> mem \<Rightarrow> long \<times> mem \<times> event list" where
  "farfetch e cmd addr target_pid target_addr len0 m =
     (let (page_off, len, nr_pages) = window target_addr len0;
          w38 = WARN_ON 38 (nr_pages * PAGE_SIZE < len)
      in if euid e \<noteq> 0 then (- EPERM, m, w38)
         else
           (let ev1 = w38 @ [FindGetPid target_pid, GetPidTask, PutPid]
            in case pid_task e target_pid of
                 None \<Rightarrow> (- ESRCH, m, ev1)
               | Some tsk \<Rightarrow>
                   (let ev2 = ev1 @ [GetTaskMm (task_mm e tsk), PutTaskStruct]
                    in case task_mm e tsk of
                         None \<Rightarrow> (- ESRCH, m, ev2)
                       | Some mm \<Rightarrow>
                           if \<not> kmalloc_ok e
                           then (- ENOMEM, m,
                                 ev2 @ [KmallocArray (unat nr_pages) False, Mmput mm])
                           else if \<not> lock_ok e
                           then (- EINTR, m,
                                 ev2 @ [KmallocArray (unat nr_pages) True,
                                        MmapReadLockKillable False, Mmput mm, Kfree])
                           else
                             (let (ret, pages) = get_user_pages_remote e nr_pages;
                                  ev3 = ev2 @ [KmallocArray (unat nr_pages) True,
                                               MmapReadLockKillable True,
                                               GetUserPages target_addr (unat nr_pages)
                                                 (cmd = FAR_WRITE) pages]
                                          @ (if pin_locked e then [MmapReadUnlock] else [])
                                          @ [Mmput mm]
                              in if IS_ERR_VALUE ret then (ret, m, ev3 @ [Kfree])
                                 else
                                   (let (r, m', evs) =
                                          farfetch_pinned cmd addr page_off len nr_pages
                                            ret pages m
                                    in (r, m', ev3 @ evs))))))"

text \<open>What a run pinned and what it released, read from its events.\<close>

definition pinned_pages :: "event list \<Rightarrow> page list" where
  "pinned_pages evs =
     concat (map (\<lambda>ev. case ev of GetUserPages a n w ps \<Rightarrow> ps | _ \<Rightarrow> []) evs)"

definition released_pages :: "event list \<Rightarrow> page list" where
  "released_pages evs =
     concat (map (\<lambda>ev. case ev of PutPage p \<Rightarrow> [p] | _ \<Rightarrow> []) evs)"

definition mm_acquired :: "event list \<Rightarrow> mm list" where
  "mm_acquired evs =
     concat (map (\<lambda>ev. case ev of GetTaskMm (Some h) \<Rightarrow> [h] | _ \<Rightarrow> []) evs)"

definition mm_released :: "event list \<Rightarrow> mm list" where
  "mm_released evs =
     concat (map (\<lambda>ev. case ev of Mmput h \<Rightarrow> [h] | _ \<Rightarrow> []) evs)"

text \<open>The copies of a run that hit an inaccessible user byte.\<close>

definition copy_faults :: "event list \<Rightarrow> event list" where
  "copy_faults evs =
     filter (\<lambda>ev. case ev of CopyToUser a p off n left \<Rightarrow> left \<noteq> 0
                            | CopyFromUser a p off n left \<Rightarrow> left \<noteq> 0
                            | _ \<Rightarrow> False) evs"

text \<open>The events of a run that map, read, write or dirty a page.\<close>

definition page_accesses :: "event list \<Rightarrow> event list" where
  "page_accesses evs =
     filter (\<lambda>ev. case ev of Kmap p \<Rightarrow> True
                            | Kunmap p \<Rightarrow> True
                            | CopyToUser a p off n left \<Rightarrow> True
                            | CopyFromUser a p off n left \<Rightarrow> True
                            | SetPageDirtyLock p \<Rightarrow> True
                            | _ \<Rightarrow> False) evs"

text \<open>The warnings of a run, and the number of bytes its copies moved.\<close>

definition warnings :: "event list \<Rightarrow> event list" where
  "warnings evs = filter (\<lambda>ev. case ev of WARN n \<Rightarrow> True | _ \<Rightarrow> False) evs"

definition bytes_copied :: "event list \<Rightarrow> nat" where
  "bytes_copied evs =
     sum_list (map (\<lambda>ev. case ev of CopyToUser a p off n left \<Rightarrow> n - left
                              | CopyFromUser a p off n left \<Rightarrow> n - left
                              | _ \<Rightarrow> 0) evs)"

text \<open>
  Every page a run maps, copies, dirties or releases is among \<open>ps\<close>, and every copy
  stays inside its page.
\<close>

definition within_pages :: "page list \<Rightarrow> event list \<Rightarrow> bool" where
  "within_pages ps evs =
     list_all (\<lambda>ev. case ev of Kmap p \<Rightarrow> p \<in> set ps
                              | Kunmap p \<Rightarrow> p \<in> set ps
                              | CopyToUser a p off n left \<Rightarrow> p \<in> set ps \<and> off + n \<le> 4096
                              | CopyFromUser a p off n left \<Rightarrow> p \<in> set ps \<and> off + n \<le> 4096
                              | SetPageDirtyLock p \<Rightarrow> p \<in> set ps
                              | PutPage p \<Rightarrow> p \<in> set ps
                              | _ \<Rightarrow> True) evs"

text \<open>
  The offset and the length of every copy of a run, in order.
\<close>

definition copy_steps :: "event list \<Rightarrow> (nat \<times> nat) list" where
  "copy_steps evs =
     concat (map (\<lambda>ev. case ev of CopyToUser a p off n left \<Rightarrow> [(off, n)]
                              | CopyFromUser a p off n left \<Rightarrow> [(off, n)]
                              | _ \<Rightarrow> []) evs)"

text \<open>
  The copies the spec prescribes for \<open>k\<close> pages: each page takes
  \<open>min(remaining_length, page_size - offset_within_page)\<close> bytes, and the offset within
  the page is the leading offset on the first page and 0 on all the following ones.
\<close>

fun chunks :: "nat \<Rightarrow> nat \<Rightarrow> nat \<Rightarrow> (nat \<times> nat) list" where
  "chunks 0 off remaining = []"
| "chunks (Suc k) off remaining =
     (off, min remaining (unat PAGE_SIZE - off))
       # chunks k 0 (remaining - min remaining (unat PAGE_SIZE - off))"

subsection \<open>A sample environment and memory\<close>

text \<open>
  A privileged caller, the process 42 with a live address space (task 7, handle 9), an
  allocation and a lock that succeed, and the pages \<open>ps\<close> available to the pin call.
\<close>

definition env_ok :: "page list \<Rightarrow> env" where
  "env_ok ps =
     \<lparr>euid = 0, pid_task = (\<lambda>p. if p = 42 then Some 7 else None),
      task_mm = (\<lambda>t. Some 9), kmalloc_ok = True, lock_ok = True,
      pin = PinAvail ps, pin_locked = True\<rparr>"

text \<open>The same with an unprivileged caller, uid 1000.\<close>

definition env_user :: env where
  "env_user = (env_ok [3])\<lparr>euid := 1000\<rparr>"

text \<open>
  A memory in which the caller can access the single byte at address \<open>0x1000\<close>, every
  page byte is \<open>0x5a\<close> and no page is dirty.
\<close>

definition mem_ex :: mem where
  "mem_ex = \<lparr>umem = (\<lambda>a. if a = 0x1000 then Some 0 else None),
            pmem = (\<lambda>p ofs. 0x5a), dirty = (\<lambda>p. False)\<rparr>"

text \<open>
  A memory in which the caller can access the 4096 bytes from \<open>0x1000\<close>.
\<close>

definition mem_buf :: mem where
  "mem_buf = \<lparr>umem = (\<lambda>a. if 0x1000 \<le> a \<and> a < 0x2000 then Some 0 else None),
             pmem = (\<lambda>p ofs. 0x5a), dirty = (\<lambda>p. False)\<rparr>"

section \<open>The transfer window\<close>

lemma MAX_RW_COUNT_val: "MAX_RW_COUNT = 0x7ffff000"
  by (simp add: MAX_RW_COUNT_def INT_MAX_def PAGE_MASK_def PAGE_SIZE_def)

lemma unat_PAGE_SIZE: "unat PAGE_SIZE = 4096"
  by (simp add: PAGE_SIZE_def)

lemma page_off_lt: "unat ((a::size_t) AND NOT PAGE_MASK) < 4096"
proof -
  have "a AND NOT PAGE_MASK = a AND 4095" by (simp add: PAGE_MASK_def PAGE_SIZE_def)
  moreover have "a AND 4095 \<le> 4095" by (rule word_and_le1)
  ultimately show ?thesis by (simp add: word_le_nat_alt)
qed

lemma unat_min: "unat (min (a::'a::len word) b) = min (unat a) (unat b)"
  by (simp add: min_def word_le_nat_alt)

lemma unat_min3: "unat (min3 a b c) = min (min (unat a) (unat b)) (unat c)"
  by (simp add: min3_def unat_min)

lemma unat_add64:
  "unat (x::size_t) + unat y < 18446744073709551616 \<Longrightarrow> unat (x + y) = unat x + unat y"
  using unat_add_lem [of x y] by simp

lemma unat_clamp_le: "unat (min3 len0 MAX_RW_COUNT z) \<le> 2147479552"
  by (simp add: unat_min3 MAX_RW_COUNT_val)

lemma bound_exact:
  fixes po :: size_t
  assumes "unat po < 4096"
  shows "unat (SIZE_MAX - po - PAGE_SIZE + 1) = 2 ^ 64 - unat po - 4096"
proof -
  have e: "SIZE_MAX - po - PAGE_SIZE + 1 = - 4096 - po"
    by (simp add: SIZE_MAX_def PAGE_SIZE_def)
  have "unat (- 4096 :: size_t) = 2 ^ 64 - 4096" by simp
  moreover have "po \<le> - 4096" using assms by (simp add: word_le_nat_alt)
  ultimately show ?thesis unfolding e using assms by (simp add: unat_sub)
qed

lemma window_sum:
  fixes target_addr len0 :: size_t
  defines "po \<equiv> target_addr AND NOT PAGE_MASK"
  defines "len \<equiv> min3 len0 MAX_RW_COUNT (SIZE_MAX - po - PAGE_SIZE + 1)"
  shows "unat (po + len + PAGE_SIZE - 1) = unat po + unat len + 4095"
proof -
  have po: "unat po < 4096" unfolding po_def by (rule page_off_lt)
  have len: "unat len \<le> 2147479552" unfolding len_def by (rule unat_clamp_le)
  have a: "unat (po + len) = unat po + unat len"
    using po len by (simp add: unat_add64)
  have e: "po + len + PAGE_SIZE - 1 = (po + len) + 4095" by (simp add: PAGE_SIZE_def)
  have "unat ((po + len) + 4095) = unat (po + len) + unat (4095::size_t)"
    using a po len by (subst unat_add64) simp_all
  then show ?thesis unfolding e a by simp
qed

lemma window_pages:
  fixes target_addr len0 :: size_t
  defines "po \<equiv> target_addr AND NOT PAGE_MASK"
  defines "len \<equiv> min3 len0 MAX_RW_COUNT (SIZE_MAX - po - PAGE_SIZE + 1)"
  defines "nr \<equiv> (po + len + PAGE_SIZE - 1) div PAGE_SIZE"
  shows "unat nr = (unat po + unat len + 4095) div 4096"
    and "unat nr \<le> 524288"
    and "unat po + unat len \<le> unat nr * 4096"
    and "unat (nr * PAGE_SIZE) = unat nr * 4096"
proof -
  have po: "unat po < 4096" unfolding po_def by (rule page_off_lt)
  have len: "unat len \<le> 2147479552" unfolding len_def by (rule unat_clamp_le)
  show nr: "unat nr = (unat po + unat len + 4095) div 4096"
    unfolding nr_def unat_div len_def po_def window_sum unat_PAGE_SIZE ..
  from po len have "(unat po + unat len + 4095) div 4096 \<le> 524288" by simp
  with nr show b: "unat nr \<le> 524288" by simp
  then have c: "unat nr * 4096 < 2 ^ 64" by simp
  show "unat po + unat len \<le> unat nr * 4096" unfolding nr by simp
  from c show "unat (nr * PAGE_SIZE) = unat nr * 4096"
    using unat_mult_lem [of nr PAGE_SIZE] by (simp add: unat_PAGE_SIZE)
qed

text \<open>
  C1. For every target address and length, the clamped length and the page count of lines
  36 and 37 satisfy \<open>nr_pages * PAGE_SIZE \<ge> page_off + len\<close>, and neither the sum
  \<open>page_off + len + PAGE_SIZE - 1\<close> nor the product \<open>nr_pages * PAGE_SIZE\<close> leaves the
  64 bits of \<^verbatim>\<open>size_t\<close>: the words computed are the exact natural numbers. The bound
  \<open>SIZE_MAX - page_off - PAGE_SIZE + 1\<close> itself is computed without wrap-around, and
  the clamped length is at most the requested one and at most \<^verbatim>\<open>MAX_RW_COUNT\<close>.
\<close>

theorem window_no_overflow:
  "case window target_addr len0 of (page_off, len, nr_pages) \<Rightarrow>
     unat page_off < unat PAGE_SIZE \<and>
     unat (SIZE_MAX - page_off - PAGE_SIZE + 1) = 2 ^ 64 - unat page_off - unat PAGE_SIZE \<and>
     unat len \<le> unat len0 \<and>
     unat len \<le> unat MAX_RW_COUNT \<and>
     unat page_off + unat len + unat PAGE_SIZE - 1 < 2 ^ 64 \<and>
     unat (page_off + len + PAGE_SIZE - 1) = unat page_off + unat len + unat PAGE_SIZE - 1 \<and>
     unat nr_pages = (unat page_off + unat len + unat PAGE_SIZE - 1) div unat PAGE_SIZE \<and>
     unat nr_pages * unat PAGE_SIZE < 2 ^ 64 \<and>
     unat (nr_pages * PAGE_SIZE) = unat nr_pages * unat PAGE_SIZE \<and>
     unat page_off + unat len \<le> unat nr_pages * unat PAGE_SIZE"
proof -
  define po where "po = target_addr AND NOT PAGE_MASK"
  define len where "len = min3 len0 MAX_RW_COUNT (SIZE_MAX - po - PAGE_SIZE + 1)"
  define nr where "nr = (po + len + PAGE_SIZE - 1) div PAGE_SIZE"
  have w: "window target_addr len0 = (po, len, nr)"
    by (simp add: window_def Let_def po_def len_def nr_def)
  have po: "unat po < 4096" unfolding po_def by (rule page_off_lt)
  have l1: "unat len \<le> unat len0" unfolding len_def by (simp add: unat_min3)
  have l2: "unat len \<le> 2147479552" unfolding len_def by (rule unat_clamp_le)
  have s: "unat (po + len + PAGE_SIZE - 1) = unat po + unat len + 4095"
    unfolding po_def len_def by (rule window_sum)
  have n1: "unat nr = (unat po + unat len + 4095) div 4096"
    and n2: "unat nr \<le> 524288"
    and n3: "unat po + unat len \<le> unat nr * 4096"
    and n4: "unat (nr * PAGE_SIZE) = unat nr * 4096"
    unfolding po_def len_def nr_def by (rule window_pages)+
  from n2 have n5: "unat nr * 4096 < 2 ^ 64" by simp
  from po l2 have s2: "unat po + unat len + 4095 < 2 ^ 64" by simp
  show ?thesis
    unfolding w using po l1 l2 s n1 n3 n4 n5 s2 bound_exact [OF po]
    by (simp add: unat_PAGE_SIZE MAX_RW_COUNT_val)
qed

section \<open>The events of a run\<close>

lemma proj_append [simp]:
  "pinned_pages (xs @ ys) = pinned_pages xs @ pinned_pages ys"
  "released_pages (xs @ ys) = released_pages xs @ released_pages ys"
  "mm_acquired (xs @ ys) = mm_acquired xs @ mm_acquired ys"
  "mm_released (xs @ ys) = mm_released xs @ mm_released ys"
  "copy_faults (xs @ ys) = copy_faults xs @ copy_faults ys"
  "page_accesses (xs @ ys) = page_accesses xs @ page_accesses ys"
  by (simp_all add: pinned_pages_def released_pages_def mm_acquired_def mm_released_def
      copy_faults_def page_accesses_def)

lemma proj_Nil [simp]:
  "pinned_pages [] = []" "released_pages [] = []" "mm_acquired [] = []"
  "mm_released [] = []" "copy_faults [] = []" "page_accesses [] = []"
  by (simp_all add: pinned_pages_def released_pages_def mm_acquired_def mm_released_def
      copy_faults_def page_accesses_def)

lemma proj_Cons:
  "pinned_pages (ev # evs) = (case ev of GetUserPages a n w ps \<Rightarrow> ps | _ \<Rightarrow> []) @ pinned_pages evs"
  "released_pages (ev # evs) = (case ev of PutPage p \<Rightarrow> [p] | _ \<Rightarrow> []) @ released_pages evs"
  "mm_acquired (ev # evs) = (case ev of GetTaskMm (Some h) \<Rightarrow> [h] | _ \<Rightarrow> []) @ mm_acquired evs"
  "mm_released (ev # evs) = (case ev of Mmput h \<Rightarrow> [h] | _ \<Rightarrow> []) @ mm_released evs"
  by (simp_all add: pinned_pages_def released_pages_def mm_acquired_def mm_released_def)

lemma proj_WARN_ON [simp]:
  "pinned_pages (WARN_ON l c) = []" "released_pages (WARN_ON l c) = []"
  "mm_acquired (WARN_ON l c) = []" "mm_released (WARN_ON l c) = []"
  "copy_faults (WARN_ON l c) = []" "page_accesses (WARN_ON l c) = []"
  by (simp_all add: WARN_ON_def pinned_pages_def released_pages_def mm_acquired_def
      mm_released_def copy_faults_def page_accesses_def)

lemma proj_PutPage [simp]:
  "pinned_pages (map PutPage ps) = []" "released_pages (map PutPage ps) = ps"
  "mm_acquired (map PutPage ps) = []" "mm_released (map PutPage ps) = []"
  "copy_faults (map PutPage ps) = []" "page_accesses (map PutPage ps) = []"
  by (induction ps)
    (simp_all add: pinned_pages_def released_pages_def mm_acquired_def
      mm_released_def copy_faults_def page_accesses_def)

lemma proj_single [simp]:
  "pinned_pages [GetUserPages a n w ps] = ps"
  "released_pages [Kfree] = []" "pinned_pages [Kfree] = []"
  "mm_acquired [Kfree] = []" "mm_released [Kfree] = []"
  by (simp_all add: proj_Cons)

lemma filt_Cons:
  "copy_faults (ev # evs) =
     (if (case ev of CopyToUser a p off n left \<Rightarrow> left \<noteq> 0
                   | CopyFromUser a p off n left \<Rightarrow> left \<noteq> 0
                   | _ \<Rightarrow> False) then [ev] else []) @ copy_faults evs"
  "page_accesses (ev # evs) =
     (if (case ev of Kmap p \<Rightarrow> True
                            | Kunmap p \<Rightarrow> True
                            | CopyToUser a p off n left \<Rightarrow> True
                            | CopyFromUser a p off n left \<Rightarrow> True
                            | SetPageDirtyLock p \<Rightarrow> True
                            | _ \<Rightarrow> False) then [ev] else []) @ page_accesses evs"
  by (cases ev; simp add: copy_faults_def page_accesses_def)+

lemma warnings_simps [simp]:
  "warnings [] = []"
  "warnings (xs @ ys) = warnings xs @ warnings ys"
  "warnings (map PutPage ps) = []"
  by (induction ps) (simp_all add: warnings_def)

lemma warnings_Cons:
  "warnings (ev # evs) =
     (if (case ev of WARN n \<Rightarrow> True | _ \<Rightarrow> False) then [ev] else []) @ warnings evs"
  by (simp add: warnings_def)

lemma bytes_copied_PutPage [simp]: "bytes_copied (map PutPage ps) = 0"
  by (induction ps) (simp_all add: bytes_copied_def)

lemma bytes_copied_simps [simp]:
  "bytes_copied [] = 0"
  "bytes_copied (xs @ ys) = bytes_copied xs + bytes_copied ys"
  by (simp_all add: bytes_copied_def)

lemma bytes_copied_Cons:
  "bytes_copied (ev # evs) =
     (case ev of CopyToUser a p off n left \<Rightarrow> n - left
               | CopyFromUser a p off n left \<Rightarrow> n - left
               | _ \<Rightarrow> 0) + bytes_copied evs"
  by (simp add: bytes_copied_def)

lemma loop_no_resources:
  "transfer_loop cmd addr len ps page_off iter m = (r, it, m', evs) \<Longrightarrow>
     pinned_pages evs = [] \<and> released_pages evs = [] \<and>
     mm_acquired evs = [] \<and> mm_released evs = []"
proof (induction ps arbitrary: page_off iter m r it m' evs)
  case Nil
  then show ?case by simp
next
  case (Cons p ps)
  then show ?case
    by (auto simp: Let_def proj_Cons split: prod.splits if_splits)
qed

section \<open>The window and the pin call\<close>

lemma window_nr_le:
  "window target_addr len0 = (page_off, len, nr_pages) \<Longrightarrow> unat nr_pages \<le> 524288"
  using window_pages(2) [where target_addr = target_addr and ?len0.0 = len0]
  by (auto simp: window_def Let_def)

lemma window_no_warn:
  "window target_addr len0 = (page_off, len, nr_pages) \<Longrightarrow> \<not> nr_pages * PAGE_SIZE < len"
  using window_pages(3,4) [where target_addr = target_addr and ?len0.0 = len0]
  by (auto simp: window_def Let_def word_less_nat_alt)

lemma unat_neg64:
  fixes y :: long
  assumes "y \<noteq> 0"
  shows "unat (- y) = 2 ^ 64 - unat y"
proof -
  from assms have "unat y \<noteq> 0" by (simp add: unat_eq_0)
  then show ?thesis using unat_sub_if' [of 0 y] by simp
qed

lemma pin_fails_err: "IS_ERR_VALUE (- (1 + of_nat (n mod MAX_ERRNO)))"
proof -
  define y :: long where "y = 1 + of_nat (n mod 4095)"
  have "n mod 4095 < 4095" by simp
  then have a: "unat y = 1 + n mod 4095"
    unfolding y_def by (simp add: unat_add64 unat_of_nat)
  then have nz: "y \<noteq> 0" by (metis Suc_eq_plus1_left nat.simps(3) unat_0)
  have "unat (- (4095 :: long)) \<le> unat (- y)"
    using a by (simp add: unat_neg64 [OF nz])
  then show ?thesis
    by (simp add: IS_ERR_VALUE_def MAX_ERRNO_def word_le_nat_alt y_def)
qed

lemma pin_avail_ok:
  assumes "n \<le> 524288"
  shows "\<not> IS_ERR_VALUE (of_nat n)" "unat (of_nat n :: long) = n"
proof -
  show u: "unat (of_nat n :: long) = n" using assms by (simp add: unat_of_nat)
  show "\<not> IS_ERR_VALUE (of_nat n)"
    using assms by (simp add: IS_ERR_VALUE_def MAX_ERRNO_def word_le_nat_alt u)
qed

text \<open>After a pin call that did not fail, the loops run over the whole array.\<close>

lemma pinned_take:
  assumes "unat nr \<le> 524288"
    and "get_user_pages_remote e nr = (ret, pages)"
    and "\<not> IS_ERR_VALUE ret"
  shows "take (unat (if ret < nr then ret else nr)) pages = pages"
    and "unat ret = length pages" and "length pages \<le> unat nr"
proof -
  have "\<exists>ps. pin e = PinAvail ps"
  proof (cases "pin e")
    case (PinFails n)
    with assms(2) have "ret = - (1 + of_nat (n mod MAX_ERRNO))"
      by (simp add: get_user_pages_remote_def)
    with assms(3) show ?thesis using pin_fails_err [of n] by simp
  next
    case (PinAvail ps)
    then show ?thesis by simp
  qed
  then obtain ps where p: "pin e = PinAvail ps" ..
  with assms(2) have g: "pages = take (unat nr) ps"
    and r: "ret = of_nat (length pages)"
    by (auto simp: get_user_pages_remote_def)
  show l: "length pages \<le> unat nr" using g by simp
  with assms(1) have "length pages \<le> 524288" by simp
  then show u: "unat ret = length pages"
    using r g pin_avail_ok(2) by simp
  show "take (unat (if ret < nr then ret else nr)) pages = pages"
    using u l by simp
qed

lemma pin_error_empty:
  assumes nr: "unat nr \<le> 524288"
    and g: "get_user_pages_remote e nr = (ret, pages)"
    and "IS_ERR_VALUE ret"
  shows "pages = []"
proof (cases "pin e")
  case (PinFails n)
  with g show ?thesis by (simp add: get_user_pages_remote_def)
next
  case (PinAvail ps)
  with g have "ret = of_nat (length (take (unat nr) ps))"
    by (auto simp: get_user_pages_remote_def)
  moreover have "length (take (unat nr) ps) \<le> 524288" using nr by simp
  ultimately have "\<not> IS_ERR_VALUE ret" using pin_avail_ok(1) by blast
  with assms(3) show ?thesis by simp
qed

lemma window_zero:
  assumes "window target_addr 0 = (page_off, len, nr)"
  shows "page_off = target_addr AND NOT PAGE_MASK" and "len = 0"
    and "nr = (if page_off = 0 then 0 else 1)"
proof -
  from assms show po: "page_off = target_addr AND NOT PAGE_MASK"
    and l: "len = 0"
    by (auto simp: window_def Let_def min3_def)
  have p: "unat page_off < 4096" unfolding po by (rule page_off_lt)
  have "unat nr = (unat page_off + unat len + 4095) div 4096"
    using window_pages(1) [where target_addr = target_addr and ?len0.0 = 0] assms
    by (auto simp: window_def Let_def)
  with l p have "unat nr = (if unat page_off = 0 then 0 else 1)" by auto
  then show "nr = (if page_off = 0 then 0 else 1)"
    by (metis unat_0 unat_1 unat_eq_0 word_unat_eq_iff)
qed

lemma window_nr_pos:
  assumes w: "window target_addr len0 = (page_off, len, nr)"
    and "target_addr AND NOT PAGE_MASK \<noteq> 0 \<or> len0 \<noteq> 0"
  shows "0 < unat nr"
proof -
  have po: "page_off = target_addr AND NOT PAGE_MASK"
    and l: "len = min3 len0 MAX_RW_COUNT (SIZE_MAX - page_off - PAGE_SIZE + 1)"
    using w by (auto simp: window_def Let_def)
  have p: "unat page_off < 4096" unfolding po by (rule page_off_lt)
  have n: "unat nr = (unat page_off + unat len + 4095) div 4096"
    using window_pages(1) [where target_addr = target_addr and ?len0.0 = len0] w
    by (auto simp: window_def Let_def)
  have "0 < unat page_off + unat len"
  proof (cases "page_off = 0")
    case True
    with assms(2) po have "len0 \<noteq> 0" by simp
    then have "0 < unat len0" by (simp add: unat_gt_0)
    then have "0 < unat len"
      unfolding l using bound_exact [OF p] p
      by (simp add: unat_min3 MAX_RW_COUNT_val)
    then show ?thesis by simp
  next
    case False
    then have "0 < unat page_off" by (simp add: unat_gt_0)
    then show ?thesis by simp
  qed
  then have "4096 \<le> unat page_off + unat len + 4095" by linarith
  then have "0 < (unat page_off + unat len + 4095) div 4096"
    by (simp add: div_greater_zero_iff)
  with n show ?thesis by simp
qed

section \<open>The paths of the system call\<close>

lemma pinned_events:
  assumes "farfetch_pinned cmd addr page_off len0 nr0 ret pages m = (r, m', evs)"
  shows "pinned_pages evs = []"
    and "released_pages evs = take (unat (if ret < nr0 then ret else nr0)) pages"
    and "mm_acquired evs = []" and "mm_released evs = []"
  using assms loop_no_resources
  by (auto simp: farfetch_pinned_def Let_def split: prod.splits if_splits)

lemma farfetch_ok_path:
  assumes "euid e = 0" and "pid_task e target_pid = Some t" and "task_mm e t = Some h"
    and "kmalloc_ok e" and "lock_ok e" and "pin e = PinAvail ps"
    and w: "window target_addr len0 = (page_off, len, nr)"
  shows "farfetch e cmd addr target_pid target_addr len0 m =
    (case farfetch_pinned cmd addr page_off len nr (of_nat (length (take (unat nr) ps)))
            (take (unat nr) ps) m of
       (r, m', evs) \<Rightarrow>
         (r, m',
          [FindGetPid target_pid, GetPidTask, PutPid, GetTaskMm (Some h), PutTaskStruct,
           KmallocArray (unat nr) True, MmapReadLockKillable True,
           GetUserPages target_addr (unat nr) (cmd = FAR_WRITE) (take (unat nr) ps)]
          @ (if pin_locked e then [MmapReadUnlock] else []) @ [Mmput h] @ evs))"
proof -
  have nr: "unat nr \<le> 524288" using w by (rule window_nr_le)
  then have "length (take (unat nr) ps) \<le> 524288" by simp
  then have ne: "\<not> IS_ERR_VALUE (of_nat (length (take (unat nr) ps)))"
    by (rule pin_avail_ok(1))
  have nw: "\<not> nr * PAGE_SIZE < len" using w by (rule window_no_warn)
  have g: "get_user_pages_remote e nr =
             (of_nat (length (take (unat nr) ps)), take (unat nr) ps)"
    using assms(6) by (simp add: get_user_pages_remote_def)
  show ?thesis
    using assms(1-5) ne nw
    by (simp add: farfetch_def w g WARN_ON_def Let_def split: prod.splits)
qed

text \<open>Evaluating a run on concrete arguments.\<close>

lemma IS_ERR_VALUE_1: "\<not> IS_ERR_VALUE 1"
  by (simp add: IS_ERR_VALUE_def MAX_ERRNO_def word_le_nat_alt)

lemmas run_defs =
  farfetch_def farfetch_pinned_def window_def min3_def PAGE_MASK_def PAGE_SIZE_def
  MAX_RW_COUNT_def INT_MAX_def SIZE_MAX_def MAX_ERRNO_def IS_ERR_VALUE_def WARN_ON_def
  get_user_pages_remote_def copy_to_user_def copy_from_user_def ucopy_ok_def
  set_page_dirty_lock_def FAR_READ_def FAR_WRITE_def
  EPERM_def ESRCH_def EINTR_def ENOMEM_def EFAULT_def EINVAL_def
  env_ok_def env_user_def mem_ex_def Let_def

section \<open>Release of the pages and of the address space\<close>

lemma farfetch_releases:
  assumes f: "farfetch e cmd addr target_pid target_addr len0 m = (r, m', evs)"
  shows "released_pages evs = pinned_pages evs" and "mm_released evs = mm_acquired evs"
proof -
  obtain page_off len nr where w: "window target_addr len0 = (page_off, len, nr)"
    by (cases "window target_addr len0") auto
  have nr: "unat nr \<le> 524288" using w by (rule window_nr_le)
  obtain ret pages where g: "get_user_pages_remote e nr = (ret, pages)"
    by (cases "get_user_pages_remote e nr") auto
  obtain r1 m1 evs1 where
    p: "farfetch_pinned cmd addr page_off len nr ret pages m = (r1, m1, evs1)"
    by (cases "farfetch_pinned cmd addr page_off len nr ret pages m") auto
  note err = pin_error_empty [OF nr g]
  show "released_pages evs = pinned_pages evs"
    using f pinned_events [OF p] pinned_take(1) [OF nr g] err
    by (auto simp: farfetch_def w g p proj_Cons Let_def split: option.splits if_splits)
  show "mm_released evs = mm_acquired evs"
    using f pinned_events [OF p]
    by (auto simp: farfetch_def w g p proj_Cons Let_def split: option.splits if_splits)
qed

text \<open>
  C5. On every exit path of \<open>farfetch\<close> (the permission failure, a target that does not
  resolve, the allocation failure, the interrupted lock, the failed pin call, a stop in
  the middle of the loop, success) the pages released by \<^verbatim>\<open>put_page\<close> are the pages the
  pin call pinned, each as many times as it was pinned and in the same order, and the
  address-space handles released by \<^verbatim>\<open>mmput\<close> are the handles \<^verbatim>\<open>get_task_mm\<close>
  returned: nothing is leaked and nothing is released twice.
\<close>

theorem cleanup_exactly_once:
  "case farfetch e cmd addr target_pid target_addr len0 m of (r, m', evs) \<Rightarrow>
     released_pages evs = pinned_pages evs \<and> mm_released evs = mm_acquired evs"
proof -
  obtain r m' evs where f: "farfetch e cmd addr target_pid target_addr len0 m = (r, m', evs)"
    by (cases "farfetch e cmd addr target_pid target_addr len0 m") auto
  show ?thesis using farfetch_releases [OF f] by (simp add: f)
qed

section \<open>The permission check\<close>

text \<open>
  C8. A caller whose effective uid is not 0 gets \<^verbatim>\<open>-EPERM\<close> whatever the other
  arguments are; the memory is unchanged and the run has no event at all: no process
  lookup, no allocation, no pin call, no warning.
\<close>

theorem unprivileged_eperm:
  "euid e \<noteq> 0 \<Longrightarrow> farfetch e cmd addr target_pid target_addr len0 m = (- EPERM, m, [])"
proof -
  assume u: "euid e \<noteq> 0"
  obtain page_off len nr where w: "window target_addr len0 = (page_off, len, nr)"
    by (cases "window target_addr len0") auto
  show ?thesis using u window_no_warn [OF w] by (simp add: farfetch_def w WARN_ON_def)
qed

theorem unprivileged_eperm_witness:
  "euid env_user \<noteq> 0 \<and>
   farfetch env_user FAR_READ 0x1000 42 0x2000 16 mem_ex = (- EPERM, mem_ex, [])"
proof -
  have h: "euid env_user \<noteq> 0" by (simp add: env_user_def env_ok_def)
  from unprivileged_eperm [OF h] h show ?thesis by simp
qed

section \<open>A fault in the middle of the loop\<close>

lemma loop_fault:
  "transfer_loop cmd addr len ps page_off iter m = (r, it, m', evs) \<Longrightarrow>
     copy_faults evs \<noteq> [] \<Longrightarrow> r = - EFAULT"
proof (induction ps arbitrary: page_off iter m r it m' evs)
  case Nil
  then show ?case by simp
next
  case (Cons p ps)
  then show ?case
    by (auto simp: Let_def filt_Cons EFAULT_def EINVAL_def split: prod.splits if_splits)
qed

lemma pinned_fault:
  assumes "farfetch_pinned cmd addr page_off len0 nr0 ret pages m = (r, m', evs)"
    and "copy_faults evs \<noteq> []"
  shows "r = - EFAULT"
proof -
  obtain nr len w84 where a: "(if ret < nr0
             then (ret, ret * PAGE_SIZE - page_off,
                   WARN_ON 84 (ret * PAGE_SIZE - page_off > len0))
             else (nr0, len0, [])) = (nr, len, w84)" and w: "copy_faults w84 = []"
    by (cases "ret < nr0") auto
  obtain r' it m1 evl where
    l: "transfer_loop cmd addr len (take (unat nr) pages) page_off addr m = (r', it, m1, evl)"
    by (metis prod_cases4)
  from assms(1) have r: "r = (if r' \<noteq> 0 then r' else len)"
    and e: "evs = w84 @ evl @ WARN_ON 120 (r' = 0 \<and> it - addr \<noteq> len)
               @ map PutPage (take (unat nr) pages) @ [Kfree]"
    using l by (simp_all add: farfetch_pinned_def a Let_def)
  from assms(2) e w have "copy_faults evl \<noteq> []" by (simp add: filt_Cons)
  with l have "r' = - EFAULT" by (rule loop_fault)
  then show ?thesis using r by (simp add: EFAULT_def)
qed

text \<open>
  C6. In every run in which a user copy faults, at whatever page of the loop, the call
  returns \<^verbatim>\<open>-EFAULT\<close> and nothing else: the result is a value of the errno range, not the
  number of bytes moved before the fault. The pages released are the pages pinned, each
  once.
\<close>

theorem fault_returns_error_only:
  "case farfetch e cmd addr target_pid target_addr len0 m of (r, m', evs) \<Rightarrow>
     copy_faults evs \<noteq> [] \<longrightarrow>
       r = - EFAULT \<and> IS_ERR_VALUE r \<and> released_pages evs = pinned_pages evs"
proof -
  obtain r m' evs where f: "farfetch e cmd addr target_pid target_addr len0 m = (r, m', evs)"
    by (cases "farfetch e cmd addr target_pid target_addr len0 m") auto
  obtain page_off len nr where w: "window target_addr len0 = (page_off, len, nr)"
    by (cases "window target_addr len0") auto
  obtain ret pages where g: "get_user_pages_remote e nr = (ret, pages)"
    by (cases "get_user_pages_remote e nr") auto
  obtain r1 m1 evs1 where
    p: "farfetch_pinned cmd addr page_off len nr ret pages m = (r1, m1, evs1)"
    by (cases "farfetch_pinned cmd addr page_off len nr ret pages m") auto
  have "r = - EFAULT" if "copy_faults evs \<noteq> []"
    using f that pinned_fault [OF p]
    by (auto simp: farfetch_def w g p Let_def filt_Cons split: option.splits if_splits)
  moreover have "IS_ERR_VALUE (- EFAULT)"
    by (simp add: IS_ERR_VALUE_def EFAULT_def MAX_ERRNO_def)
  ultimately show ?thesis
    using farfetch_releases(1) [OF f] by (auto simp: f)
qed

text \<open>
  A read of two bytes that crosses a page boundary into a caller buffer of which only
  the first byte is accessible: the first page is copied (the byte arrives in the
  buffer), the copy from the second page faults, and the call returns \<^verbatim>\<open>-EFAULT\<close>.
\<close>

theorem fault_returns_error_only_witness:
  "case farfetch (env_ok [3, 4]) FAR_READ 0x1000 42 4095 2 mem_ex of (r, m', evs) \<Rightarrow>
     copy_faults evs = [CopyToUser 0x1001 4 0 1 1] \<and>
     CopyToUser 0x1000 3 4095 1 0 \<in> set evs \<and>
     umem m' 0x1000 = Some 0x5a \<and>
     pinned_pages evs = [3, 4] \<and>
     r = - EFAULT \<and> IS_ERR_VALUE r \<and> released_pages evs = pinned_pages evs"
proof -
  have run: "farfetch (env_ok [3, 4]) FAR_READ 0x1000 42 4095 2 mem_ex =
     (- EFAULT,
      mem_ex\<lparr>umem := (\<lambda>a. if a = 0x1000 then Some 0x5a else umem mem_ex a)\<rparr>,
      [FindGetPid 42, GetPidTask, PutPid, GetTaskMm (Some 9), PutTaskStruct,
       KmallocArray 2 True, MmapReadLockKillable True,
       GetUserPages 4095 2 False [3, 4], MmapReadUnlock, Mmput 9, Kmap 3,
       CopyToUser 0x1000 3 4095 1 0, Kunmap 3, Kmap 4, CopyToUser 0x1001 4 0 1 1,
       Kunmap 4, PutPage 3, PutPage 4, Kfree])"
    by (simp add: run_defs fun_eq_iff unat_eq_0)
  have h: "copy_faults (snd (snd (farfetch (env_ok [3, 4]) FAR_READ 0x1000 42 4095 2 mem_ex))) =
             [CopyToUser 0x1001 4 0 1 1]"
    by (simp add: run filt_Cons)
  from fault_returns_error_only [of "env_ok [3, 4]" FAR_READ "0x1000" 42 4095 2 mem_ex] h
  show ?thesis by (simp add: run filt_Cons proj_Cons)
qed


section \<open>A command that is neither read nor write\<close>

text \<open>With a command that is neither of the two, the loop stops in its first iteration.\<close>

lemma loop_invalid:
  assumes "cmd \<noteq> FAR_READ" and "cmd \<noteq> FAR_WRITE"
  shows "transfer_loop cmd addr len ps page_off iter m =
           (if ps = [] then 0 else - EINVAL, iter, m, [])"
  using assms by (cases ps) (simp_all add: Let_def EINVAL_def)

lemma pinned_invalid:
  assumes "cmd \<noteq> FAR_READ" and "cmd \<noteq> FAR_WRITE"
    and "take (unat (if ret < nr0 then ret else nr0)) pages \<noteq> []"
    and "farfetch_pinned cmd addr page_off len0 nr0 ret pages m = (r, m', evs)"
  shows "r = - EINVAL" and "m' = m" and "page_accesses evs = []"
  using assms(3,4) loop_invalid [OF assms(1,2)]
  by (auto simp: farfetch_pinned_def Let_def EINVAL_def filt_Cons split: if_splits)

lemma farfetch_invalid:
  assumes "cmd \<noteq> FAR_READ" and "cmd \<noteq> FAR_WRITE"
    and "farfetch e cmd addr target_pid target_addr len0 m = (r, m', evs)"
    and "pinned_pages evs \<noteq> []"
  shows "r = - EINVAL" and "m' = m" and "page_accesses evs = []"
proof -
  obtain page_off len nr where w: "window target_addr len0 = (page_off, len, nr)"
    by (cases "window target_addr len0") auto
  have nr: "unat nr \<le> 524288" using w by (rule window_nr_le)
  obtain ret pages where g: "get_user_pages_remote e nr = (ret, pages)"
    by (cases "get_user_pages_remote e nr") auto
  obtain r1 m1 evs1 where
    p: "farfetch_pinned cmd addr page_off len nr ret pages m = (r1, m1, evs1)"
    by (cases "farfetch_pinned cmd addr page_off len nr ret pages m") auto
  have pe: "pinned_pages evs1 = []" using pinned_events(1) [OF p] .
  have nw: "\<not> nr * PAGE_SIZE < len" using w by (rule window_no_warn)
  note pin_error_empty [OF nr g]
  with assms(3,4) pe have ne: "\<not> IS_ERR_VALUE ret" and pg: "pages \<noteq> []"
    and r: "r = r1" and m: "m' = m1" and ev: "page_accesses evs = page_accesses evs1"
    by (auto simp: farfetch_def w g p Let_def proj_Cons filt_Cons WARN_ON_def nw
        split: option.splits if_splits)
  from pinned_take(1) [OF nr g ne] pg
  have "take (unat (if ret < nr then ret else nr)) pages \<noteq> []" by simp
  from pinned_invalid [OF assms(1,2) this p] r m ev
  show "r = - EINVAL" and "m' = m" and "page_accesses evs = []" by simp_all
qed

lemma pinned_zero_aligned:
  "farfetch_pinned cmd addr 0 0 0 0 [] m = (0, m, [Kfree])"
  by (simp add: farfetch_pinned_def WARN_ON_def)

text \<open>
  C10. With a command that is neither \<^verbatim>\<open>FAR_READ\<close> nor \<^verbatim>\<open>FAR_WRITE\<close>, every run that
  pinned at least one page returns \<^verbatim>\<open>-EINVAL\<close> from the first iteration of the loop:
  the caller's memory, the contents of the pages and the dirty flags are what they were,
  and the run maps no page, performs no copy and marks no page dirty.
\<close>

theorem invalid_cmd_no_copy:
  assumes "cmd \<noteq> FAR_READ" and "cmd \<noteq> FAR_WRITE"
  shows "case farfetch e cmd addr target_pid target_addr len0 m of (r, m', evs) \<Rightarrow>
           pinned_pages evs \<noteq> [] \<longrightarrow>
             r = - EINVAL \<and> umem m' = umem m \<and> pmem m' = pmem m \<and> dirty m' = dirty m \<and>
             page_accesses evs = []"
proof -
  obtain r m' evs where f: "farfetch e cmd addr target_pid target_addr len0 m = (r, m', evs)"
    by (cases "farfetch e cmd addr target_pid target_addr len0 m") auto
  show ?thesis
    using farfetch_invalid [OF assms f] by (simp add: f)
qed

theorem invalid_cmd_no_copy_witness:
  "(2 :: cmd_t) \<noteq> FAR_READ \<and> (2 :: cmd_t) \<noteq> FAR_WRITE \<and>
   (case farfetch (env_ok [3]) 2 0x1000 42 0x2000 16 mem_ex of (r, m', evs) \<Rightarrow>
      pinned_pages evs = [3] \<and>
      r = - EINVAL \<and> umem m' = umem mem_ex \<and> pmem m' = pmem mem_ex \<and>
      dirty m' = dirty mem_ex \<and> page_accesses evs = [])"
proof -
  have c: "(2 :: cmd_t) \<noteq> FAR_READ" "(2 :: cmd_t) \<noteq> FAR_WRITE"
    by (simp_all add: FAR_READ_def FAR_WRITE_def)
  have h: "pinned_pages (snd (snd (farfetch (env_ok [3]) 2 0x1000 42 0x2000 16 mem_ex))) = [3]"
    using IS_ERR_VALUE_1 by (simp add: run_defs proj_Cons)
  from invalid_cmd_no_copy
      [where e = "env_ok [3]" and addr = "0x1000" and target_pid = 42
         and target_addr = "0x2000" and ?len0.0 = 16 and m = mem_ex, OF c] h c
  show ?thesis by (simp split: prod.splits)
qed

text \<open>
  C4, as stated, fails: with command 2, length 0 and a page-aligned address the call
  returns 0, not \<^verbatim>\<open>-EINVAL\<close>, and the process lookup, the allocation and the pin call
  have all been made.
\<close>

theorem invalid_cmd_early_counterexample:
  "(2 :: cmd_t) \<noteq> FAR_READ \<and> (2 :: cmd_t) \<noteq> FAR_WRITE \<and> euid (env_ok [3]) = 0 \<and>
   farfetch (env_ok [3]) 2 0x1000 42 0x2000 0 mem_ex =
     (0, mem_ex,
      [FindGetPid 42, GetPidTask, PutPid, GetTaskMm (Some 9), PutTaskStruct,
       KmallocArray 0 True, MmapReadLockKillable True,
       GetUserPages 0x2000 0 False [], MmapReadUnlock, Mmput 9, Kfree]) \<and>
   (0 :: long) \<noteq> - EINVAL"
  by (simp add: run_defs)

text \<open>
  C4, amended. For a privileged caller and a command that is neither \<^verbatim>\<open>FAR_READ\<close> nor
  \<^verbatim>\<open>FAR_WRITE\<close>, when the target resolves, the allocation and the lock succeed and the
  pin call pins at least one page (the request needs at least one page and one is
  available), the call returns \<^verbatim>\<open>-EINVAL\<close> and touches no page: the memory is unchanged.
  The command is checked in the loop only, so by then the process has been looked up, the
  array allocated and the pages pinned; they are released before the return.
\<close>

theorem invalid_cmd_after_pin:
  assumes "cmd \<noteq> FAR_READ" and "cmd \<noteq> FAR_WRITE"
    and "euid e = 0" and "pid_task e target_pid = Some t" and "task_mm e t = Some h"
    and "kmalloc_ok e" and "lock_ok e" and "pin e = PinAvail ps" and "ps \<noteq> []"
    and "target_addr AND NOT PAGE_MASK \<noteq> 0 \<or> len0 \<noteq> 0"
  shows "case farfetch e cmd addr target_pid target_addr len0 m of (r, m', evs) \<Rightarrow>
           r = - EINVAL \<and> m' = m \<and> page_accesses evs = [] \<and>
           FindGetPid target_pid \<in> set evs \<and>
           KmallocArray (unat (snd (snd (window target_addr len0)))) True \<in> set evs \<and>
           pinned_pages evs \<noteq> [] \<and>
           released_pages evs = pinned_pages evs \<and>
           mm_released evs = [h]"
proof -
  obtain page_off len nr where w: "window target_addr len0 = (page_off, len, nr)"
    by (cases "window target_addr len0") auto
  have nr: "0 < unat nr" using w assms(10) by (rule window_nr_pos)
  define pages where "pages = take (unat nr) ps"
  define ret :: long where "ret = of_nat (length pages)"
  have pg: "pages \<noteq> []" using nr assms(9) by (simp add: pages_def)
  obtain r1 m1 evs1 where
    p: "farfetch_pinned cmd addr page_off len nr ret pages m = (r1, m1, evs1)"
    by (cases "farfetch_pinned cmd addr page_off len nr ret pages m") auto
  have g: "get_user_pages_remote e nr = (ret, pages)"
    using assms(8) by (simp add: get_user_pages_remote_def pages_def ret_def)
  have le: "unat nr \<le> 524288" using w by (rule window_nr_le)
  then have "length pages \<le> 524288" by (simp add: pages_def)
  then have ne: "\<not> IS_ERR_VALUE ret" unfolding ret_def by (rule pin_avail_ok(1))
  have t: "take (unat (if ret < nr then ret else nr)) pages = pages"
    using le g ne by (rule pinned_take(1))
  with pg have "take (unat (if ret < nr then ret else nr)) pages \<noteq> []" by simp
  note i = pinned_invalid [OF assms(1,2) this p]
  note ev = pinned_events [OF p]
  show ?thesis
    using farfetch_ok_path [OF assms(3-8) w, of cmd addr m] i ev pg t
    by (simp add: p w proj_Cons filt_Cons flip: pages_def ret_def)
qed

theorem invalid_cmd_after_pin_witness:
  "(5 :: cmd_t) \<noteq> FAR_READ \<and> (5 :: cmd_t) \<noteq> FAR_WRITE \<and>
   euid (env_ok [3, 4]) = 0 \<and> pid_task (env_ok [3, 4]) 42 = Some 7 \<and>
   task_mm (env_ok [3, 4]) 7 = Some 9 \<and> kmalloc_ok (env_ok [3, 4]) \<and>
   lock_ok (env_ok [3, 4]) \<and> pin (env_ok [3, 4]) = PinAvail [3, 4] \<and>
   (case farfetch (env_ok [3, 4]) 5 0x1000 42 0x2ffe 4 mem_ex of (r, m', evs) \<Rightarrow>
      r = - EINVAL \<and> m' = mem_ex \<and> page_accesses evs = [] \<and>
      FindGetPid 42 \<in> set evs \<and>
      KmallocArray (unat (snd (snd (window 0x2ffe 4)))) True \<in> set evs \<and>
      pinned_pages evs \<noteq> [] \<and>
      released_pages evs = pinned_pages evs \<and>
      mm_released evs = [9])"
proof -
  have c: "(5 :: cmd_t) \<noteq> FAR_READ" "(5 :: cmd_t) \<noteq> FAR_WRITE"
    by (simp_all add: FAR_READ_def FAR_WRITE_def)
  have e: "euid (env_ok [3, 4]) = 0" "pid_task (env_ok [3, 4]) 42 = Some 7"
    "task_mm (env_ok [3, 4]) 7 = Some 9" "kmalloc_ok (env_ok [3, 4])"
    "lock_ok (env_ok [3, 4])" "pin (env_ok [3, 4]) = PinAvail [3, 4]"
    by (simp_all add: env_ok_def)
  have n: "[3, 4 :: page] \<noteq> []" by simp
  have a: "(0x2ffe :: size_t) AND NOT PAGE_MASK \<noteq> 0 \<or> (4 :: size_t) \<noteq> 0" by simp
  from invalid_cmd_after_pin [where addr = "0x1000" and m = mem_ex, OF c e n a] c e
  show ?thesis by simp
qed

text \<open>
  C9. With a command that is neither \<^verbatim>\<open>FAR_READ\<close> nor \<^verbatim>\<open>FAR_WRITE\<close>, a privileged
  caller, a target that resolves, length 0 and a page-aligned target address, the page
  count is 0 and the call returns 0: the command is only looked at inside the loop, which
  has no iteration. (The allocation, the lock and the pin call are taken to succeed.)
\<close>

theorem invalid_cmd_no_pages_succeeds:
  assumes "cmd \<noteq> FAR_READ" and "cmd \<noteq> FAR_WRITE"
    and "euid e = 0" and "pid_task e target_pid = Some t" and "task_mm e t = Some h"
    and "kmalloc_ok e" and "lock_ok e" and "pin e = PinAvail ps"
    and "target_addr AND NOT PAGE_MASK = 0"
  shows "window target_addr 0 = (0, 0, 0) \<and>
         farfetch e cmd addr target_pid target_addr 0 m =
           (0, m,
            [FindGetPid target_pid, GetPidTask, PutPid, GetTaskMm (Some h), PutTaskStruct,
             KmallocArray 0 True, MmapReadLockKillable True,
             GetUserPages target_addr 0 False []]
            @ (if pin_locked e then [MmapReadUnlock] else []) @ [Mmput h, Kfree])"
proof -
  obtain page_off len nr where w: "window target_addr 0 = (page_off, len, nr)"
    by (cases "window target_addr 0") auto
  from window_zero [OF w] assms(9) have z: "page_off = 0" "len = 0" "nr = 0" by simp_all
  show ?thesis
    using farfetch_ok_path [OF assms(3-8) w, of cmd addr m] assms(2) w
    by (simp add: z pinned_zero_aligned)
qed

theorem invalid_cmd_no_pages_succeeds_witness:
  "(7 :: cmd_t) \<noteq> FAR_READ \<and> (7 :: cmd_t) \<noteq> FAR_WRITE \<and>
   euid (env_ok [3]) = 0 \<and> pid_task (env_ok [3]) 42 = Some 7 \<and>
   task_mm (env_ok [3]) 7 = Some 9 \<and> kmalloc_ok (env_ok [3]) \<and>
   lock_ok (env_ok [3]) \<and> pin (env_ok [3]) = PinAvail [3] \<and>
   (0x5000 :: size_t) AND NOT PAGE_MASK = 0 \<and>
   window 0x5000 0 = (0, 0, 0) \<and>
   farfetch (env_ok [3]) 7 0x1000 42 0x5000 0 mem_ex =
     (0, mem_ex,
      [FindGetPid 42, GetPidTask, PutPid, GetTaskMm (Some 9), PutTaskStruct,
       KmallocArray 0 True, MmapReadLockKillable True,
       GetUserPages 0x5000 0 False [], MmapReadUnlock, Mmput 9, Kfree])"
proof -
  have c: "(7 :: cmd_t) \<noteq> FAR_READ" "(7 :: cmd_t) \<noteq> FAR_WRITE"
    by (simp_all add: FAR_READ_def FAR_WRITE_def)
  have e: "euid (env_ok [3]) = 0" "pid_task (env_ok [3]) 42 = Some 7"
    "task_mm (env_ok [3]) 7 = Some 9" "kmalloc_ok (env_ok [3])"
    "lock_ok (env_ok [3])" "pin (env_ok [3]) = PinAvail [3]"
    by (simp_all add: env_ok_def)
  have a: "(0x5000 :: size_t) AND NOT PAGE_MASK = 0"
    by (simp add: PAGE_MASK_def PAGE_SIZE_def)
  have l: "pin_locked (env_ok [3])" by (simp add: env_ok_def)
  from invalid_cmd_no_pages_succeeds [where addr = "0x1000" and m = mem_ex, OF c e a] c e a l
  show ?thesis by simp
qed


section \<open>A request of length 0\<close>

lemma copy_to_user_zero: "copy_to_user m dst p off 0 = (0, m)"
  by (simp add: copy_to_user_def ucopy_ok_def)

lemma copy_from_user_zero: "copy_from_user m p off src 0 = (0, m)"
proof -
  have "(\<lambda>q ofs. if q = p \<and> off \<le> ofs \<and> ofs < off + 0
                   then (if ofs - off < 0
                         then (case umem m (src + of_nat (ofs - off)) of
                                 Some b \<Rightarrow> b | None \<Rightarrow> 0)
                         else 0)
                   else pmem m q ofs) = pmem m"
    by (intro ext) auto
  then show ?thesis by (simp add: copy_from_user_def ucopy_ok_def)
qed

lemma pinned_zero_one:
  assumes "cmd = FAR_READ \<or> cmd = FAR_WRITE"
  shows "\<exists>m' evs. farfetch_pinned cmd addr page_off 0 1 1 [p] m = (0, m', evs @ [PutPage p, Kfree])
           \<and> umem m' = umem m \<and> pmem m' = pmem m
           \<and> pinned_pages evs = [] \<and> released_pages evs = []"
  using assms
  by (auto simp: farfetch_pinned_def WARN_ON_def Let_def copy_to_user_zero copy_from_user_zero
      set_page_dirty_lock_def FAR_READ_def FAR_WRITE_def proj_Cons)

text \<open>
  C3, as stated, fails: a read of length 0 at an address that is not page-aligned
  returns 0, but the process is looked up, the array is allocated, one page is pinned,
  mapped, handed to a copy of 0 bytes and released.
\<close>

theorem zero_length_counterexample:
  "euid (env_ok [3]) = 0 \<and>
   farfetch (env_ok [3]) FAR_READ 0x1000 42 0x2003 0 mem_ex =
     (0, mem_ex,
      [FindGetPid 42, GetPidTask, PutPid, GetTaskMm (Some 9), PutTaskStruct,
       KmallocArray 1 True, MmapReadLockKillable True,
       GetUserPages 0x2003 1 False [3], MmapReadUnlock, Mmput 9,
       Kmap 3, CopyToUser 0x1000 3 3 0 0, Kunmap 3, PutPage 3, Kfree])"
  using IS_ERR_VALUE_1 by (simp add: run_defs)

text \<open>
  C3, amended. For a request of length 0 from a privileged caller, when the target
  resolves, the allocation and the lock succeed and the pin call does not fail, and
  either the target address is page-aligned or the command is \<^verbatim>\<open>FAR_READ\<close> or
  \<^verbatim>\<open>FAR_WRITE\<close> and the page is pinned, the call returns 0 and no byte of the caller's
  memory or of a page changes. Nothing is skipped: the process is looked up and the array
  allocated as for any length, and when the address is not page-aligned one page is pinned
  and released.
\<close>

theorem zero_length_amended:
  assumes "euid e = 0" and "pid_task e target_pid = Some t" and "task_mm e t = Some h"
    and "kmalloc_ok e" and "lock_ok e" and "pin e = PinAvail ps"
    and "target_addr AND NOT PAGE_MASK = 0 \<or> (ps \<noteq> [] \<and> (cmd = FAR_READ \<or> cmd = FAR_WRITE))"
  shows "case farfetch e cmd addr target_pid target_addr 0 m of (r, m', evs) \<Rightarrow>
           r = 0 \<and> umem m' = umem m \<and> pmem m' = pmem m \<and>
           FindGetPid target_pid \<in> set evs \<and>
           KmallocArray (if target_addr AND NOT PAGE_MASK = 0 then 0 else 1) True \<in> set evs \<and>
           pinned_pages evs = take (if target_addr AND NOT PAGE_MASK = 0 then 0 else 1) ps \<and>
           released_pages evs = pinned_pages evs"
proof -
  obtain page_off len nr where w: "window target_addr 0 = (page_off, len, nr)"
    by (cases "window target_addr 0") auto
  note z = window_zero [OF w]
  note f = farfetch_ok_path [OF assms(1-6) w, of cmd addr m]
  show ?thesis
  proof (cases "page_off = 0")
    case True
    with z have "nr = 0" "len = 0" by simp_all
    then show ?thesis
      using f True z(1) by (simp add: pinned_zero_aligned proj_Cons)
  next
    case False
    with z have n: "nr = 1" "len = 0" by simp_all
    from False z(1) assms(7) obtain p ps' where ps: "ps = p # ps'"
      and c: "cmd = FAR_READ \<or> cmd = FAR_WRITE"
      by (cases ps) auto
    from pinned_zero_one [OF c, of addr page_off p m] obtain m1 evs1 where
      "farfetch_pinned cmd addr page_off 0 1 1 [p] m = (0, m1, evs1 @ [PutPage p, Kfree])"
      "umem m1 = umem m" "pmem m1 = pmem m" "pinned_pages evs1 = []" "released_pages evs1 = []"
      by blast
    then show ?thesis
      using f False z(1) n ps by (simp add: proj_Cons)
  qed
qed

theorem zero_length_amended_witness:
  "euid (env_ok [3]) = 0 \<and> pid_task (env_ok [3]) 42 = Some 7 \<and>
   task_mm (env_ok [3]) 7 = Some 9 \<and> kmalloc_ok (env_ok [3]) \<and>
   lock_ok (env_ok [3]) \<and> pin (env_ok [3]) = PinAvail [3] \<and>
   (0x2003 :: size_t) AND NOT PAGE_MASK \<noteq> 0 \<and> [3 :: page] \<noteq> [] \<and>
   (case farfetch (env_ok [3]) FAR_WRITE 0x1000 42 0x2003 0 mem_ex of (r, m', evs) \<Rightarrow>
      r = 0 \<and> umem m' = umem mem_ex \<and> pmem m' = pmem mem_ex \<and>
      FindGetPid 42 \<in> set evs \<and> KmallocArray 1 True \<in> set evs \<and>
      pinned_pages evs = [3] \<and> released_pages evs = [3])"
proof -
  have e: "euid (env_ok [3]) = 0" "pid_task (env_ok [3]) 42 = Some 7"
    "task_mm (env_ok [3]) 7 = Some 9" "kmalloc_ok (env_ok [3])"
    "lock_ok (env_ok [3])" "pin (env_ok [3]) = PinAvail [3]"
    by (simp_all add: env_ok_def)
  have a: "(0x2003 :: size_t) AND NOT PAGE_MASK \<noteq> 0"
    by (simp add: PAGE_MASK_def PAGE_SIZE_def)
  have d: "(0x2003 :: size_t) AND NOT PAGE_MASK = 0 \<or>
           ([3 :: page] \<noteq> [] \<and> (FAR_WRITE = FAR_READ \<or> FAR_WRITE = FAR_WRITE))"
    by simp
  from zero_length_amended [where addr = "0x1000" and m = mem_ex, OF e d] e a
  show ?thesis by (simp split: prod.splits)
qed

section \<open>The loop total and the value returned\<close>

text \<open>One successful iteration: the rest of the loop runs from the advanced cursor.\<close>

lemma loop_step_ok:
  assumes "transfer_loop cmd addr len (p # ps) page_off iter m = (0, it, m', evs)"
  shows "\<exists>m1 evs2.
           transfer_loop cmd addr len ps 0
             (iter + min (len - (iter - addr)) (PAGE_SIZE - page_off)) m1 = (0, it, m', evs2) \<and>
           bytes_copied evs =
             unat (min (len - (iter - addr)) (PAGE_SIZE - page_off)) + bytes_copied evs2"
  using assms
  by (auto simp: Let_def EFAULT_def EINVAL_def bytes_copied_Cons split: prod.splits if_splits)
    blast+

lemma loop_total:
  assumes "transfer_loop cmd addr len ps page_off iter m = (0, it, m', evs)"
    and "unat page_off < 4096" and "unat (iter - addr) \<le> unat len"
  shows "unat (it - addr) =
           (if ps = [] then unat (iter - addr)
            else min (unat len) (unat (iter - addr) + length ps * 4096 - unat page_off))
         \<and> unat (iter - addr) + bytes_copied evs = unat (it - addr)"
  using assms
proof (induction ps arbitrary: page_off iter m evs)
  case Nil
  then show ?case by simp
next
  case (Cons p ps)
  define c where "c = unat (iter - addr)"
  define tc where "tc = min (len - (iter - addr)) (PAGE_SIZE - page_off)"
  from loop_step_ok [OF Cons.prems(1)] obtain m1 evs2 where
    l: "transfer_loop cmd addr len ps 0 (iter + tc) m1 = (0, it, m', evs2)"
    and b: "bytes_copied evs = unat tc + bytes_copied evs2"
    unfolding tc_def by blast
  have po: "unat page_off < 4096" by fact
  have cl: "c \<le> unat len" unfolding c_def by fact
  have u1: "unat (len - (iter - addr)) = unat len - c"
    using cl unfolding c_def by (simp add: unat_sub word_le_nat_alt)
  have u2: "unat (PAGE_SIZE - page_off) = 4096 - unat page_off"
    using po by (simp add: unat_sub word_le_nat_alt unat_PAGE_SIZE)
  have tcu: "unat tc = min (unat len - c) (4096 - unat page_off)"
    unfolding tc_def by (simp add: unat_min u1 u2)
  have w: "iter + tc - addr = (iter - addr) + tc" by simp
  have "c + unat tc \<le> unat len" using tcu cl by simp
  moreover have "unat len < 2 ^ 64" using unsigned_less [of len] by simp
  ultimately have lt: "unat (iter - addr) + unat tc < 2 ^ 64" unfolding c_def by simp
  have c': "unat (iter + tc - addr) = c + unat tc"
    unfolding w c_def using lt unat_add_lem [of "iter - addr" tc] by simp
  have c'l: "unat (iter + tc - addr) \<le> unat len" using c' tcu cl by simp
  have z: "unat (0 :: size_t) < 4096" by simp
  from Cons.IH [OF l z c'l]
  have ih: "unat (it - addr) =
           (if ps = [] then c + unat tc
            else min (unat len) (c + unat tc + length ps * 4096))"
    and ihb: "c + unat tc + bytes_copied evs2 = unat (it - addr)"
    by (simp_all add: c')
  have "unat (it - addr) = min (unat len) (c + length (p # ps) * 4096 - unat page_off)"
    using ih tcu cl po by (cases "ps = []") (auto simp: min_def)
  moreover have "c + bytes_copied evs = unat (it - addr)"
    using ihb b by simp
  ultimately show ?case by (simp add: c_def)
qed

lemma loop_no_warnings:
  "transfer_loop cmd addr len ps page_off iter m = (r, it, m', evs) \<Longrightarrow> warnings evs = []"
proof (induction ps arbitrary: page_off iter m r it m' evs)
  case Nil
  then show ?case by simp
next
  case (Cons p ps)
  then show ?case
    by (auto simp: Let_def warnings_Cons split: prod.splits if_splits)
qed

lemma loop_ret:
  "transfer_loop cmd addr len ps page_off iter m = (r, it, m', evs) \<Longrightarrow>
     r = 0 \<or> r = - EFAULT \<or> r = - EINVAL"
proof (induction ps arbitrary: page_off iter m r it m' evs)
  case Nil
  then show ?case by simp
next
  case (Cons p ps)
  then show ?case
    by (auto simp: Let_def split: prod.splits if_splits)
qed

lemma errno_is_err:
  "IS_ERR_VALUE (- EPERM)" "IS_ERR_VALUE (- ESRCH)" "IS_ERR_VALUE (- EINTR)"
  "IS_ERR_VALUE (- ENOMEM)" "IS_ERR_VALUE (- EFAULT)" "IS_ERR_VALUE (- EINVAL)"
  by (simp_all add: IS_ERR_VALUE_def MAX_ERRNO_def EPERM_def ESRCH_def EINTR_def
      ENOMEM_def EFAULT_def EINVAL_def)

lemma small_not_err: "unat (x :: long) \<le> 2147479552 \<Longrightarrow> \<not> IS_ERR_VALUE x"
  by (simp add: IS_ERR_VALUE_def MAX_ERRNO_def word_le_nat_alt)

lemma neg_off_is_err:
  fixes po :: size_t
  assumes "po \<noteq> 0" and "unat po < 4096"
  shows "IS_ERR_VALUE (0 * PAGE_SIZE - po)"
  using assms by (simp add: IS_ERR_VALUE_def MAX_ERRNO_def word_le_nat_alt unat_neg64)

text \<open>
  The part after the pin call, for a page array of \<open>k\<close> pages, \<open>k\<close> at most the page
  count of the window.
\<close>

lemma pinned_total:
  fixes page_off len0 nr0 :: size_t
  assumes po: "unat page_off < 4096"
    and l0: "unat len0 \<le> 2147479552"
    and n0: "unat nr0 = (unat page_off + unat len0 + 4095) div 4096"
    and lp: "length pages \<le> unat nr0"
    and ok: "pages \<noteq> [] \<or> page_off = 0"
    and f: "farfetch_pinned cmd addr page_off len0 nr0 (of_nat (length pages)) pages m
              = (r, m', evs)"
  shows "warnings evs = []"
    and "\<not> IS_ERR_VALUE r \<Longrightarrow> unat r = bytes_copied evs"
    and "\<not> IS_ERR_VALUE r \<Longrightarrow> unat r \<le> unat len0"
    and "\<not> IS_ERR_VALUE r \<Longrightarrow> length pages < unat nr0 \<Longrightarrow>
           unat r = length pages * 4096 - unat page_off"
proof -
  define k where "k = length pages"
  define ret :: long where "ret = of_nat k"
  have nb: "unat nr0 \<le> 524288" using n0 po l0 by simp
  then have kb: "k \<le> 524288" using lp by (simp add: k_def)
  have ur: "unat ret = k" unfolding ret_def using kb by (rule pin_avail_ok(2))
  have lt: "(ret < nr0) = (k < unat nr0)" by (simp add: word_less_nat_alt ur)
  have urp: "unat (ret * PAGE_SIZE) = k * 4096"
    using kb unat_mult_lem [of ret PAGE_SIZE] by (simp add: ur unat_PAGE_SIZE)
  define nr where "nr = (if ret < nr0 then ret else nr0)"
  define len where "len = (if ret < nr0 then ret * PAGE_SIZE - page_off else len0)"
  have tk: "take (unat nr) pages = pages"
    using lp ur lt by (auto simp: nr_def k_def)
  \<comment> \<open>the revised length, as a number\<close>
  have ul: "unat len = (if k < unat nr0 then k * 4096 - unat page_off else unat len0)"
  proof (cases "k < unat nr0")
    case True
    show ?thesis
    proof (cases "k = 0")
      case True
      with ok have "page_off = 0" by (simp add: k_def)
      with True \<open>k < unat nr0\<close> show ?thesis
        unfolding len_def lt by (simp add: ret_def)
    next
      case False
      then have "unat page_off \<le> k * 4096" using po by simp
      then have "page_off \<le> ret * PAGE_SIZE" by (simp add: word_le_nat_alt urp)
      then show ?thesis using True by (simp add: len_def lt unat_sub urp)
    qed
  next
    case False
    then show ?thesis by (simp add: len_def lt)
  qed
  have ll: "unat len \<le> unat len0"
  proof (cases "k < unat nr0")
    case True
    then have "k * 4096 < unat page_off + unat len0 + 4095 - 4095" using n0 by simp
    then show ?thesis using ul True by simp
  next
    case False
    then show ?thesis using ul by simp
  qed
  have w84: "WARN_ON 84 (ret * PAGE_SIZE - page_off > len0) = []" if "ret < nr0"
    using ll that by (simp add: WARN_ON_def len_def word_less_nat_alt)
  have cov: "k = 0 \<or> unat len \<le> k * 4096 - unat page_off"
    using ul n0 lp by (auto simp: k_def)
  have z: "k = 0 \<Longrightarrow> unat len = 0"
    using ul n0 lp ok po by (auto simp: k_def)
  obtain r' it m1 evl where
    l: "transfer_loop cmd addr len pages page_off addr m = (r', it, m1, evl)"
    by (metis prod_cases4)
  have tot: "it - addr = len \<and> bytes_copied evl = unat len" if "r' = 0"
  proof -
    have "unat (addr - addr) \<le> unat len" by simp
    from loop_total [OF l [unfolded that] po this]
    have a: "unat (it - addr) = (if pages = [] then 0 else min (unat len) (k * 4096 - unat page_off))"
      and b: "bytes_copied evl = unat (it - addr)"
      by (simp_all add: k_def)
    from a cov z have "unat (it - addr) = unat len" by (auto simp: k_def)
    then show ?thesis using b by (simp add: word_unat_eq_iff)
  qed
  from f have r: "r = (if r' \<noteq> 0 then r' else len)"
    and e: "evs = (if ret < nr0 then WARN_ON 84 (ret * PAGE_SIZE - page_off > len0) else [])
               @ evl @ WARN_ON 120 (r' = 0 \<and> it - addr \<noteq> len) @ map PutPage pages @ [Kfree]"
    using l tk
    by (auto simp: farfetch_pinned_def Let_def nr_def len_def ret_def k_def split: if_splits)
  have w120: "WARN_ON 120 (r' = 0 \<and> it - addr \<noteq> len) = []"
    using tot by (auto simp: WARN_ON_def)
  show "warnings evs = []"
    using e w84 w120 loop_no_warnings [OF l] by (simp add: warnings_Cons)
  have bc: "bytes_copied evs = bytes_copied evl"
    using e w84 w120 by (simp add: bytes_copied_Cons)
  have ok': "r' = 0" if "\<not> IS_ERR_VALUE r"
    using loop_ret [OF l] that r errno_is_err(5,6) by (auto split: if_splits)
  show "unat r = bytes_copied evs" if "\<not> IS_ERR_VALUE r"
    using ok' [OF that] tot r bc by simp
  show "unat r \<le> unat len0" if "\<not> IS_ERR_VALUE r"
    using ok' [OF that] r ll by simp
  show "unat r = length pages * 4096 - unat page_off"
    if "\<not> IS_ERR_VALUE r" "length pages < unat nr0"
    using ok' [OF that(1)] r ul that(2) by (simp add: k_def)
qed

lemma window_facts:
  assumes w: "window target_addr len0 = (page_off, len, nr)"
  shows "page_off = target_addr AND NOT PAGE_MASK"
    and "unat page_off < 4096" and "unat len \<le> 2147479552" and "unat len \<le> unat len0"
    and "unat nr = (unat page_off + unat len + 4095) div 4096"
proof -
  from w have l: "len = min3 len0 MAX_RW_COUNT (SIZE_MAX - page_off - PAGE_SIZE + 1)"
    by (auto simp: window_def Let_def)
  from w show po: "page_off = target_addr AND NOT PAGE_MASK"
    by (auto simp: window_def Let_def)
  show "unat page_off < 4096" unfolding po by (rule page_off_lt)
  show "unat len \<le> 2147479552" unfolding l by (rule unat_clamp_le)
  show "unat len \<le> unat len0" unfolding l by (simp add: unat_min3)
  show "unat nr = (unat page_off + unat len + 4095) div 4096"
    using window_pages(1) [where target_addr = target_addr and ?len0.0 = len0] w
    by (auto simp: window_def Let_def)
qed

text \<open>A run either stops with an error before the loop or reaches the part after the pin call.\<close>

lemma farfetch_cases:
  assumes f: "farfetch e cmd addr target_pid target_addr len0 m = (r, m', evs)"
    and w: "window target_addr len0 = (page_off, len, nr)"
  shows "(IS_ERR_VALUE r \<and> warnings evs = [] \<and> pinned_pages evs = []) \<or>
         (\<exists>ps pre evs1.
            farfetch_pinned cmd addr page_off len nr (of_nat (length (take (unat nr) ps)))
              (take (unat nr) ps) m = (r, m', evs1) \<and>
            evs = pre @ evs1 \<and> warnings pre = [] \<and> bytes_copied pre = 0 \<and>
            pinned_pages pre = take (unat nr) ps \<and> pinned_pages evs1 = [])"
proof (cases "euid e = 0 \<and> (\<exists>t h ps. pid_task e target_pid = Some t \<and> task_mm e t = Some h
                \<and> kmalloc_ok e \<and> lock_ok e \<and> pin e = PinAvail ps)")
  case True
  then obtain t h ps where a: "euid e = 0" "pid_task e target_pid = Some t"
    "task_mm e t = Some h" "kmalloc_ok e" "lock_ok e" "pin e = PinAvail ps"
    by blast
  obtain r1 m1 evs1 where p: "farfetch_pinned cmd addr page_off len nr
      (of_nat (length (take (unat nr) ps))) (take (unat nr) ps) m = (r1, m1, evs1)"
    by (metis prod_cases3)
  from farfetch_ok_path [OF a w, of cmd addr m] f
  have "r = r1" "m' = m1"
    "evs = ([FindGetPid target_pid, GetPidTask, PutPid, GetTaskMm (Some h), PutTaskStruct,
           KmallocArray (unat nr) True, MmapReadLockKillable True,
           GetUserPages target_addr (unat nr) (cmd = FAR_WRITE) (take (unat nr) ps)]
          @ (if pin_locked e then [MmapReadUnlock] else []) @ [Mmput h]) @ evs1"
    by (simp_all add: p del: length_take)
  then show ?thesis
    using p pinned_events(1) [OF p]
    by (intro disjI2 exI [of _ ps] exI [of _ evs1]
        exI [of _ "[FindGetPid target_pid, GetPidTask, PutPid, GetTaskMm (Some h), PutTaskStruct,
           KmallocArray (unat nr) True, MmapReadLockKillable True,
           GetUserPages target_addr (unat nr) (cmd = FAR_WRITE) (take (unat nr) ps)]
          @ (if pin_locked e then [MmapReadUnlock] else []) @ [Mmput h]"])
      (simp add: warnings_Cons bytes_copied_Cons proj_Cons del: length_take)
next
  case False
  have nw: "\<not> nr * PAGE_SIZE < len" using w by (rule window_no_warn)
  have "IS_ERR_VALUE r \<and> warnings evs = [] \<and> pinned_pages evs = []"
  proof (cases "pin e")
    case (PinFails n)
    then have g: "get_user_pages_remote e nr = (- (1 + of_nat (n mod MAX_ERRNO)), [])"
      by (simp add: get_user_pages_remote_def)
    show ?thesis
      using f False errno_is_err pin_fails_err [of n]
      by (auto simp: farfetch_def w g Let_def WARN_ON_def nw warnings_Cons proj_Cons
          split: option.splits if_splits)
  next
    case (PinAvail ps)
    show ?thesis
      using f False errno_is_err PinAvail
      by (auto simp: farfetch_def w Let_def WARN_ON_def nw warnings_Cons proj_Cons
          split: option.splits if_splits)
  qed
  then show ?thesis by simp
qed

text \<open>
  A \<^verbatim>\<open>WARN_ON\<close> fires only in a run whose pin call pinned nothing for a request that
  starts inside a page.
\<close>

proposition warnings_only_after_empty_pin:
  assumes f: "farfetch e cmd addr target_pid target_addr len0 m = (r, m', evs)"
    and "warnings evs \<noteq> []"
  shows "pinned_pages evs = []" and "target_addr AND NOT PAGE_MASK \<noteq> 0"
proof -
  obtain page_off len nr where w: "window target_addr len0 = (page_off, len, nr)"
    by (cases "window target_addr len0") auto
  note wf = window_facts [OF w]
  from farfetch_cases [OF f w] assms(2) obtain ps pre evs1 where
    p: "farfetch_pinned cmd addr page_off len nr (of_nat (length (take (unat nr) ps)))
              (take (unat nr) ps) m = (r, m', evs1)"
    and e: "evs = pre @ evs1" "warnings pre = []" "pinned_pages pre = take (unat nr) ps"
      "pinned_pages evs1 = []"
    by auto
  have lp: "length (take (unat nr) ps) \<le> unat nr" by simp
  have "\<not> (take (unat nr) ps \<noteq> [] \<or> page_off = 0)"
  proof
    assume "take (unat nr) ps \<noteq> [] \<or> page_off = 0"
    from pinned_total(1) [OF wf(2,3,5) lp this p] e assms(2) show False by simp
  qed
  then show "pinned_pages evs = []" and "target_addr AND NOT PAGE_MASK \<noteq> 0"
    using e wf(1) by simp_all
qed

text \<open>
  Whenever the call returns a value outside the errno range, that value is the number of
  bytes the loop copied, it is at most the requested length, no \<^verbatim>\<open>WARN_ON\<close> fired, and
  after a partial pin of \<open>k\<close> pages it is \<open>k * PAGE_SIZE - page_off\<close>.
\<close>

proposition success_value:
  assumes f: "farfetch e cmd addr target_pid target_addr len0 m = (r, m', evs)"
    and w: "window target_addr len0 = (page_off, len, nr)"
    and s: "\<not> IS_ERR_VALUE r"
  shows "unat r = bytes_copied evs" and "unat r \<le> unat len" and "warnings evs = []"
    and "length (pinned_pages evs) < unat nr \<Longrightarrow>
           unat r = length (pinned_pages evs) * 4096 - unat page_off"
proof -
  note wf = window_facts [OF w]
  from farfetch_cases [OF f w] s obtain ps pre evs1 where
    p: "farfetch_pinned cmd addr page_off len nr (of_nat (length (take (unat nr) ps)))
              (take (unat nr) ps) m = (r, m', evs1)"
    and e: "evs = pre @ evs1" "warnings pre = []" "bytes_copied pre = 0"
      "pinned_pages pre = take (unat nr) ps" "pinned_pages evs1 = []"
    by auto
  define pages where "pages = take (unat nr) ps"
  have lp: "length pages \<le> unat nr" by (simp add: pages_def)
  have ok: "pages \<noteq> [] \<or> page_off = 0"
  proof (rule ccontr)
    assume "\<not> (pages \<noteq> [] \<or> page_off = 0)"
    then have pe: "pages = []" and pz: "page_off \<noteq> 0" by simp_all
    then have "0 < unat page_off" by (simp add: unat_gt_0)
    then have "4096 \<le> unat page_off + unat len + 4095" by linarith
    then have "0 < (unat page_off + unat len + 4095) div 4096"
      by (simp add: div_greater_zero_iff)
    then have "(0 :: size_t) < nr" using wf(5) by (simp add: word_less_nat_alt)
    with p pe have "r = 0 * PAGE_SIZE - page_off"
      by (simp add: farfetch_pinned_def Let_def flip: pages_def)
    with neg_off_is_err [OF pz wf(2)] s show False by simp
  qed
  note t = pinned_total [OF wf(2,3,5) lp ok p [folded pages_def]]
  show "unat r = bytes_copied evs" using t(2) [OF s] e by simp
  show "unat r \<le> unat len" using t(3) [OF s] .
  show "warnings evs = []" using t(1) e by simp
  show "unat r = length (pinned_pages evs) * 4096 - unat page_off"
    if "length (pinned_pages evs) < unat nr"
    using t(4) [OF s] that e by (simp add: pages_def)
qed


text \<open>
  A pin call that answers 0 although pages were asked for. The spec's range for the pin
  count, \<open>[0, page_count]\<close>, admits it; the kernel's \<^verbatim>\<open>get_user_pages_remote\<close> returns
  an error code when it pins nothing and 0 only when asked for 0 pages. If it happens
  for a request that starts inside a page, whatever the command and the length, the
  revised length of line 85 is \<open>0 * PAGE_SIZE - page_off\<close>: the call returns
  \<open>- page_off\<close>, a value of the errno range, and both assertions fire.
\<close>

proposition empty_pin_returns_neg_offset:
  assumes "euid e = 0" and "pid_task e target_pid = Some t" and "task_mm e t = Some h"
    and "kmalloc_ok e" and "lock_ok e" and "pin e = PinAvail []"
    and nz: "target_addr AND NOT PAGE_MASK \<noteq> 0"
  shows "farfetch e cmd addr target_pid target_addr len0 m =
           (- (target_addr AND NOT PAGE_MASK), m,
            [FindGetPid target_pid, GetPidTask, PutPid, GetTaskMm (Some h), PutTaskStruct,
             KmallocArray (unat (snd (snd (window target_addr len0)))) True,
             MmapReadLockKillable True,
             GetUserPages target_addr (unat (snd (snd (window target_addr len0))))
               (cmd = FAR_WRITE) []]
            @ (if pin_locked e then [MmapReadUnlock] else [])
            @ [Mmput h, WARN 84, WARN 120, Kfree])"
    and "IS_ERR_VALUE (- (target_addr AND NOT PAGE_MASK))"
proof -
  obtain page_off len nr where w: "window target_addr len0 = (page_off, len, nr)"
    by (cases "window target_addr len0") auto
  note wf = window_facts [OF w]
  have pz: "page_off \<noteq> 0" using nz wf(1) by simp
  have "0 < unat nr" using w nz by (rule window_nr_pos [OF _ disjI1])
  then have n: "(0 :: size_t) < nr" by (simp add: word_less_nat_alt)
  have u: "unat (- page_off) = 2 ^ 64 - unat page_off" using pz by (rule unat_neg64)
  have w84: "- page_off > len"
    using wf(2,3) u by (simp add: word_less_nat_alt)
  have w120: "(0 :: size_t) \<noteq> - page_off" using pz by simp
  have p: "farfetch_pinned cmd addr page_off len nr 0 [] m =
             (- page_off, m, [WARN 84, WARN 120, Kfree])"
    using n w84 w120 pz by (simp add: farfetch_pinned_def WARN_ON_def)
  show "farfetch e cmd addr target_pid target_addr len0 m =
           (- (target_addr AND NOT PAGE_MASK), m,
            [FindGetPid target_pid, GetPidTask, PutPid, GetTaskMm (Some h), PutTaskStruct,
             KmallocArray (unat (snd (snd (window target_addr len0)))) True,
             MmapReadLockKillable True,
             GetUserPages target_addr (unat (snd (snd (window target_addr len0))))
               (cmd = FAR_WRITE) []]
            @ (if pin_locked e then [MmapReadUnlock] else [])
            @ [Mmput h, WARN 84, WARN 120, Kfree])"
    using farfetch_ok_path [OF assms(1-6) w, of cmd addr m] p wf(1)
    by (simp add: w)
  show "IS_ERR_VALUE (- (target_addr AND NOT PAGE_MASK))"
    using neg_off_is_err [OF pz wf(2)] wf(1) by simp
qed


section \<open>Accesses stay inside the pinned pages\<close>

lemma within_pages_simps [simp]:
  "within_pages ps []"
  "within_pages ps (xs @ ys) = (within_pages ps xs \<and> within_pages ps ys)"
  "within_pages ps (WARN_ON l c)"
  by (simp_all add: within_pages_def WARN_ON_def)

lemma within_pages_Cons:
  "within_pages ps (ev # evs) =
     ((case ev of Kmap p \<Rightarrow> p \<in> set ps
                | Kunmap p \<Rightarrow> p \<in> set ps
                | CopyToUser a p off n left \<Rightarrow> p \<in> set ps \<and> off + n \<le> 4096
                | CopyFromUser a p off n left \<Rightarrow> p \<in> set ps \<and> off + n \<le> 4096
                | SetPageDirtyLock p \<Rightarrow> p \<in> set ps
                | PutPage p \<Rightarrow> p \<in> set ps
                | _ \<Rightarrow> True) \<and> within_pages ps evs)"
  by (simp add: within_pages_def)

lemma within_pages_PutPage: "set qs \<subseteq> set ps \<Longrightarrow> within_pages ps (map PutPage qs)"
  by (induction qs) (simp_all add: within_pages_Cons)

lemma within_pages_mono: "within_pages qs evs \<Longrightarrow> set qs \<subseteq> set ps \<Longrightarrow> within_pages ps evs"
  by (induction evs) (auto simp: within_pages_Cons split: event.splits)

lemma to_copy_fits:
  fixes page_off x :: size_t
  assumes "unat page_off < 4096"
  shows "unat page_off + unat (min x (PAGE_SIZE - page_off)) \<le> 4096"
proof -
  have "unat (PAGE_SIZE - page_off) = 4096 - unat page_off"
    using assms by (simp add: unat_sub word_le_nat_alt unat_PAGE_SIZE)
  then show ?thesis using assms by (simp add: unat_min)
qed

lemma loop_within:
  "transfer_loop cmd addr len ps page_off iter m = (r, it, m', evs) \<Longrightarrow>
     unat page_off < 4096 \<Longrightarrow> within_pages ps evs"
proof (induction ps arbitrary: page_off iter m r it m' evs)
  case Nil
  then show ?case by simp
next
  case (Cons p ps)
  have z: "unat (0 :: size_t) < 4096" by simp
  have ih: "within_pages (p # ps) evs'"
    if "transfer_loop cmd addr len ps 0 iter' m1 = (r1, it1, m2, evs')"
    for iter' m1 r1 it1 m2 evs'
    by (rule within_pages_mono [OF Cons.IH [OF that z]]) auto
  note fit = to_copy_fits [OF Cons.prems(2), of "len - (iter - addr)"]
  from Cons.prems(1) fit ih show ?case
    by (auto simp: Let_def within_pages_Cons EFAULT_def EINVAL_def
        split: prod.splits if_splits)
qed

lemma pinned_within:
  assumes "farfetch_pinned cmd addr page_off len0 nr0 ret pages m = (r, m', evs)"
    and po: "unat page_off < 4096"
  shows "within_pages pages evs"
proof -
  define nr where "nr = (if ret < nr0 then ret else nr0)"
  define len where "len = (if ret < nr0 then ret * PAGE_SIZE - page_off else len0)"
  obtain r' it m1 evl where
    l: "transfer_loop cmd addr len (take (unat nr) pages) page_off addr m = (r', it, m1, evl)"
    by (metis prod_cases4)
  have s: "set (take (unat nr) pages) \<subseteq> set pages" by (rule set_take_subset)
  have a: "within_pages pages evl"
    using within_pages_mono [OF loop_within [OF l po] s] .
  have b: "within_pages pages (map PutPage (take (unat nr) pages))"
    using s by (rule within_pages_PutPage)
  from assms(1) l a b show ?thesis
    by (auto simp: farfetch_pinned_def Let_def nr_def len_def within_pages_Cons
        split: if_splits)
qed

text \<open>
  In every run, each page that is mapped, copied from or to, marked dirty or released is
  one of the pinned pages, and each copy stays inside its page.
\<close>

proposition accesses_within_pinned:
  assumes f: "farfetch e cmd addr target_pid target_addr len0 m = (r, m', evs)"
  shows "within_pages (pinned_pages evs) evs"
proof -
  obtain page_off len nr where w: "window target_addr len0 = (page_off, len, nr)"
    by (cases "window target_addr len0") auto
  have po: "unat page_off < 4096"
    using w page_off_lt [of target_addr] by (auto simp: window_def Let_def)
  obtain ret pages where g: "get_user_pages_remote e nr = (ret, pages)"
    by (cases "get_user_pages_remote e nr") auto
  obtain r1 m1 evs1 where
    p: "farfetch_pinned cmd addr page_off len nr ret pages m = (r1, m1, evs1)"
    by (cases "farfetch_pinned cmd addr page_off len nr ret pages m") auto
  show ?thesis
    using f pinned_within [OF p po] pinned_events(1) [OF p]
    by (auto simp: farfetch_def w g p proj_Cons within_pages_Cons Let_def
        split: option.splits if_splits)
qed

section \<open>A pin call that pins fewer pages than asked for\<close>

lemma copy_steps_simps [simp]:
  "copy_steps [] = []"
  "copy_steps (xs @ ys) = copy_steps xs @ copy_steps ys"
  "copy_steps (WARN_ON l c) = []"
  by (simp_all add: copy_steps_def WARN_ON_def)

lemma copy_steps_PutPage [simp]: "copy_steps (map PutPage ps) = []"
  by (induction ps) (simp_all add: copy_steps_def)

lemma copy_steps_Cons:
  "copy_steps (ev # evs) =
     (case ev of CopyToUser a p off n left \<Rightarrow> [(off, n)]
               | CopyFromUser a p off n left \<Rightarrow> [(off, n)]
               | _ \<Rightarrow> []) @ copy_steps evs"
  by (simp add: copy_steps_def)

lemma sint_small:
  fixes k :: int
  assumes "- 9223372036854775808 \<le> k" and "k < 9223372036854775808"
  shows "sint (word_of_int k :: long) = k"
proof -
  have "0 \<le> k + 9223372036854775808" "k + 9223372036854775808 < 18446744073709551616"
    using assms by simp_all
  then have "(k + 9223372036854775808) mod 18446744073709551616 = k + 9223372036854775808"
    by (rule mod_pos_pos_trivial)
  then show ?thesis by (simp add: int_word_sint)
qed

text \<open>The loop ends without error when no copy faults and the command is one of the two.\<close>

lemma loop_success:
  "transfer_loop cmd addr len ps page_off iter m = (r, it, m', evs) \<Longrightarrow>
     copy_faults evs = [] \<Longrightarrow> cmd = FAR_READ \<or> cmd = FAR_WRITE \<or> ps = [] \<Longrightarrow> r = 0"
proof (induction ps arbitrary: page_off iter m r it m' evs)
  case Nil
  then show ?case by simp
next
  case (Cons p ps)
  then show ?case
    by (auto simp: Let_def filt_Cons split: prod.splits if_splits)
qed

lemma loop_step_steps:
  assumes "transfer_loop cmd addr len (p # ps) page_off iter m = (0, it, m', evs)"
  shows "\<exists>m1 evs2.
           transfer_loop cmd addr len ps 0
             (iter + min (len - (iter - addr)) (PAGE_SIZE - page_off)) m1 = (0, it, m', evs2) \<and>
           copy_steps evs =
             (unat page_off, unat (min (len - (iter - addr)) (PAGE_SIZE - page_off)))
               # copy_steps evs2"
  using assms
  by (auto simp: Let_def EFAULT_def EINVAL_def copy_steps_Cons split: prod.splits if_splits)
    blast+

lemma loop_chunks:
  assumes "transfer_loop cmd addr len ps page_off iter m = (0, it, m', evs)"
    and "unat page_off < 4096" and "unat (iter - addr) \<le> unat len"
  shows "copy_steps evs = chunks (length ps) (unat page_off) (unat len - unat (iter - addr))"
  using assms
proof (induction ps arbitrary: page_off iter m evs)
  case Nil
  then show ?case by simp
next
  case (Cons p ps)
  define c where "c = unat (iter - addr)"
  define tc where "tc = min (len - (iter - addr)) (PAGE_SIZE - page_off)"
  from loop_step_steps [OF Cons.prems(1)] obtain m1 evs2 where
    l: "transfer_loop cmd addr len ps 0 (iter + tc) m1 = (0, it, m', evs2)"
    and b: "copy_steps evs = (unat page_off, unat tc) # copy_steps evs2"
    unfolding tc_def by blast
  have po: "unat page_off < 4096" by fact
  have cl: "c \<le> unat len" unfolding c_def by fact
  have u1: "unat (len - (iter - addr)) = unat len - c"
    using cl unfolding c_def by (simp add: unat_sub word_le_nat_alt)
  have u2: "unat (PAGE_SIZE - page_off) = 4096 - unat page_off"
    using po by (simp add: unat_sub word_le_nat_alt unat_PAGE_SIZE)
  have tcu: "unat tc = min (unat len - c) (4096 - unat page_off)"
    unfolding tc_def by (simp add: unat_min u1 u2)
  have w: "iter + tc - addr = (iter - addr) + tc" by simp
  have "c + unat tc \<le> unat len" using tcu cl by simp
  moreover have "unat len < 2 ^ 64" using unsigned_less [of len] by simp
  ultimately have lt: "unat (iter - addr) + unat tc < 2 ^ 64" unfolding c_def by simp
  have c': "unat (iter + tc - addr) = c + unat tc"
    unfolding w c_def using lt unat_add_lem [of "iter - addr" tc] by simp
  have c'l: "unat (iter + tc - addr) \<le> unat len" using c' tcu cl by simp
  have z: "unat (0 :: size_t) < 4096" by simp
  from Cons.IH [OF l z c'l]
  have "copy_steps evs2 = chunks (length ps) 0 (unat len - (c + unat tc))"
    by (simp add: c')
  then show ?case
    using b tcu by (simp add: c_def unat_PAGE_SIZE)
qed

lemma pinned_success:
  fixes page_off len0 nr0 :: size_t
  assumes po: "unat page_off < 4096"
    and nb: "unat nr0 \<le> 524288"
    and lp: "length pages \<le> unat nr0"
    and f: "farfetch_pinned cmd addr page_off len0 nr0 (of_nat (length pages)) pages m
              = (r, m', evs)"
    and s1: "copy_faults evs = []"
    and s2: "cmd = FAR_READ \<or> cmd = FAR_WRITE \<or> pages = []"
  shows "r = (if length pages < unat nr0
              then of_nat (length pages) * PAGE_SIZE - page_off else len0)"
    and "copy_steps evs = chunks (length pages) (unat page_off) (unat r)"
proof -
  define k where "k = length pages"
  define ret :: long where "ret = of_nat k"
  have kb: "k \<le> 524288" using lp nb by (simp add: k_def)
  have ur: "unat ret = k" unfolding ret_def using kb by (rule pin_avail_ok(2))
  have lt: "(ret < nr0) = (k < unat nr0)" by (simp add: word_less_nat_alt ur)
  define nr where "nr = (if ret < nr0 then ret else nr0)"
  define len where "len = (if ret < nr0 then ret * PAGE_SIZE - page_off else len0)"
  have tk: "take (unat nr) pages = pages"
    using lp ur lt by (auto simp: nr_def k_def)
  obtain r' it m1 evl where
    l: "transfer_loop cmd addr len pages page_off addr m = (r', it, m1, evl)"
    by (metis prod_cases4)
  from f have r: "r = (if r' \<noteq> 0 then r' else len)"
    and e: "evs = (if ret < nr0 then WARN_ON 84 (ret * PAGE_SIZE - page_off > len0) else [])
               @ evl @ WARN_ON 120 (r' = 0 \<and> it - addr \<noteq> len) @ map PutPage pages @ [Kfree]"
    using l tk
    by (auto simp: farfetch_pinned_def Let_def nr_def len_def ret_def k_def split: if_splits)
  from s1 e have "copy_faults evl = []" by (simp add: filt_Cons split: if_splits)
  from loop_success [OF l this s2] have z: "r' = 0" .
  with r have rl: "r = len" by simp
  have "len = (if k < unat nr0 then of_nat k * PAGE_SIZE - page_off else len0)"
    unfolding len_def lt by (simp add: ret_def)
  with rl show "r = (if length pages < unat nr0
              then of_nat (length pages) * PAGE_SIZE - page_off else len0)"
    by (simp add: k_def)
  have "unat (addr - addr) \<le> unat len" by simp
  from loop_chunks [OF l [unfolded z] po this]
  have "copy_steps evl = chunks k (unat page_off) (unat len)" by (simp add: k_def)
  then show "copy_steps evs = chunks (length pages) (unat page_off) (unat r)"
    using e rl by (simp add: copy_steps_Cons k_def split: if_splits)
qed

lemma partial_value_signed:
  fixes page_off len :: size_t
  assumes po: "unat page_off < 4096"
    and n: "unat nr = (unat page_off + unat len + 4095) div 4096"
    and kb: "k < unat nr" and nb: "unat nr \<le> 524288"
  shows "sint (of_nat k * PAGE_SIZE - page_off :: long) =
           int k * int (unat PAGE_SIZE) - int (unat page_off)"
    and "int k * int (unat PAGE_SIZE) - int (unat page_off) \<le> int (unat len)"
proof -
  have e: "(of_nat k * PAGE_SIZE - page_off :: long) =
             word_of_int (int k * 4096 - int (unat page_off))"
    by (simp add: PAGE_SIZE_def)
  have "k \<le> 524288" using kb nb by simp
  then have "int k * 4096 \<le> 2147483648" by simp
  moreover have "0 \<le> int k * 4096" by simp
  moreover have "int (unat page_off) < 4096" "0 \<le> int (unat page_off)"
    using po by linarith+
  ultimately have "- 9223372036854775808 \<le> int k * 4096 - int (unat page_off)"
    and "int k * 4096 - int (unat page_off) < 9223372036854775808"
    by linarith+
  then have "sint (word_of_int (int k * 4096 - int (unat page_off)) :: long) =
               int k * 4096 - int (unat page_off)"
    by (rule sint_small)
  then have "sint (of_nat k * PAGE_SIZE - page_off :: long) =
               int k * 4096 - int (unat page_off)"
    unfolding e .
  moreover have "int (unat PAGE_SIZE) = 4096" unfolding unat_PAGE_SIZE by simp
  ultimately show "sint (of_nat k * PAGE_SIZE - page_off :: long) =
           int k * int (unat PAGE_SIZE) - int (unat page_off)"
    by (simp only:)
  from kb n have "k * 4096 < unat page_off + unat len + 4095 - 4095" by simp
  then have "k * 4096 < unat page_off + unat len" by simp
  then have "int k * 4096 < int (unat page_off) + int (unat len)" by linarith
  moreover have "int (unat PAGE_SIZE) = 4096" unfolding unat_PAGE_SIZE by simp
  ultimately show "int k * int (unat PAGE_SIZE) - int (unat page_off) \<le> int (unat len)"
    by (simp only:)
qed


lemma revised_len_small:
  fixes page_off len0 nr0 :: size_t
  assumes po: "unat page_off < 4096"
    and n0: "unat nr0 = (unat page_off + unat len0 + 4095) div 4096"
    and nb: "unat nr0 \<le> 524288"
    and ok: "0 < k \<or> page_off = 0"
  shows "unat (if k < unat nr0 then of_nat k * PAGE_SIZE - page_off else len0) \<le> unat len0"
proof (cases "k < unat nr0")
  case True
  then have kb: "k \<le> 524288" using nb by simp
  have ur: "unat (of_nat k :: size_t) = k" using kb by (rule pin_avail_ok(2))
  have urp: "unat (of_nat k * PAGE_SIZE :: size_t) = k * 4096"
    using kb unat_mult_lem [of "of_nat k :: size_t" PAGE_SIZE] by (simp add: ur unat_PAGE_SIZE)
  have "unat page_off \<le> k * 4096" using ok po by auto
  then have "page_off \<le> of_nat k * PAGE_SIZE" by (simp add: word_le_nat_alt urp)
  then have u: "unat (of_nat k * PAGE_SIZE - page_off) = k * 4096 - unat page_off"
    by (simp add: unat_sub urp)
  from True n0 have "k * 4096 < unat page_off + unat len0 + 4095 - 4095" by simp
  then show ?thesis using True u by simp
next
  case False
  then show ?thesis by simp
qed

text \<open>
  C2. For every request whose pin call does not fail but pins fewer pages than asked for
  (\<open>length ps < nr_pages\<close>, zero pages included), the pages pinned are \<open>ps\<close>, every page
  the run maps, copies, dirties or releases is one of them and every copy stays inside
  its page, and when the loop ends without error (no copy faults, and the command is
  \<^verbatim>\<open>FAR_READ\<close> or \<^verbatim>\<open>FAR_WRITE\<close> or there is no page) the call returns the word
  \<open>length ps * PAGE_SIZE - page_off\<close>. Read as the \<^verbatim>\<open>long\<close> the function returns, that
  value is the integer \<open>length ps * PAGE_SIZE - page_off\<close> exactly and it does not
  exceed the clamped length. When at least one page is pinned, or the address is
  page-aligned, the value is outside the errno range and is the number of bytes the run
  copied. (When nothing is pinned and the address is not page-aligned the integer is
  \<open>- page_off\<close>.)
\<close>

theorem partial_pin_value:
  assumes "euid e = 0" and "pid_task e target_pid = Some t" and "task_mm e t = Some h"
    and "kmalloc_ok e" and "lock_ok e" and "pin e = PinAvail ps"
    and w: "window target_addr len0 = (page_off, len, nr)"
    and part: "length ps < unat nr"
  shows "case farfetch e cmd addr target_pid target_addr len0 m of (r, m', evs) \<Rightarrow>
           pinned_pages evs = ps \<and> within_pages ps evs \<and>
           (copy_faults evs = [] \<and> (cmd = FAR_READ \<or> cmd = FAR_WRITE \<or> ps = []) \<longrightarrow>
              r = of_nat (length ps) * PAGE_SIZE - page_off \<and>
              sint r = int (length ps) * int (unat PAGE_SIZE) - int (unat page_off) \<and>
              sint r \<le> int (unat len) \<and>
              (ps \<noteq> [] \<or> page_off = 0 \<longrightarrow> unat r = bytes_copied evs \<and> \<not> IS_ERR_VALUE r))"
proof -
  note wf = window_facts [OF w]
  have nb: "unat nr \<le> 524288" using w by (rule window_nr_le)
  have tk: "take (unat nr) ps = ps" using part by simp
  obtain r m' evs where f: "farfetch e cmd addr target_pid target_addr len0 m = (r, m', evs)"
    by (metis prod_cases3)
  obtain r1 m1 evs1 where
    p: "farfetch_pinned cmd addr page_off len nr (of_nat (length ps)) ps m = (r1, m1, evs1)"
    by (metis prod_cases3)
  from farfetch_ok_path [OF assms(1-6) w, of cmd addr m] f
  have r: "r = r1"
    and e: "evs = ([FindGetPid target_pid, GetPidTask, PutPid, GetTaskMm (Some h), PutTaskStruct,
           KmallocArray (unat nr) True, MmapReadLockKillable True,
           GetUserPages target_addr (unat nr) (cmd = FAR_WRITE) ps]
          @ (if pin_locked e then [MmapReadUnlock] else []) @ [Mmput h]) @ evs1"
    by (simp_all add: tk p)
  have pp: "pinned_pages evs = ps"
    using e pinned_events(1) [OF p] by (simp add: proj_Cons)
  have wi: "within_pages ps evs"
    using accesses_within_pinned [OF f] pp by simp
  have cf: "copy_faults evs = copy_faults evs1" using e by (simp add: filt_Cons)
  have bc: "bytes_copied evs = bytes_copied evs1" using e by (simp add: bytes_copied_Cons)
  have lp: "length ps \<le> unat nr" using part by simp
  have main: "r = of_nat (length ps) * PAGE_SIZE - page_off \<and>
              sint r = int (length ps) * int (unat PAGE_SIZE) - int (unat page_off) \<and>
              sint r \<le> int (unat len) \<and>
              (ps \<noteq> [] \<or> page_off = 0 \<longrightarrow> unat r = bytes_copied evs \<and> \<not> IS_ERR_VALUE r)"
    if s1: "copy_faults evs = []" and s2: "cmd = FAR_READ \<or> cmd = FAR_WRITE \<or> ps = []"
  proof -
    from pinned_success(1) [OF wf(2) nb lp p s1 [unfolded cf] s2] part
    have rv: "r = of_nat (length ps) * PAGE_SIZE - page_off" by (simp add: r)
    note sg = partial_value_signed [OF wf(2) wf(5) part nb]
    have un: "unat r = bytes_copied evs \<and> \<not> IS_ERR_VALUE r" if ok: "ps \<noteq> [] \<or> page_off = 0"
    proof -
      from ok have "0 < length ps \<or> page_off = 0" by auto
      from revised_len_small [OF wf(2) wf(5) nb this] part wf(3)
      have "unat r \<le> 2147479552" by (simp add: rv)
      then have ne: "\<not> IS_ERR_VALUE r" by (rule small_not_err)
      from pinned_total(2) [OF wf(2,3,5) lp ok p] ne show ?thesis by (simp add: r bc)
    qed
    show ?thesis using rv sg un by simp
  qed
  have main': "copy_faults evs = [] \<and> (cmd = FAR_READ \<or> cmd = FAR_WRITE \<or> ps = []) \<longrightarrow>
              r = of_nat (length ps) * PAGE_SIZE - page_off \<and>
              sint r = int (length ps) * int (unat PAGE_SIZE) - int (unat page_off) \<and>
              sint r \<le> int (unat len) \<and>
              (ps \<noteq> [] \<or> page_off = 0 \<longrightarrow> unat r = bytes_copied evs \<and> \<not> IS_ERR_VALUE r)"
    using main by blast
  show ?thesis unfolding f prod.case by (intro conjI pp wi main')
qed

theorem partial_pin_value_witness:
  "euid (env_ok [3]) = 0 \<and> pid_task (env_ok [3]) 42 = Some 7 \<and>
   task_mm (env_ok [3]) 7 = Some 9 \<and> kmalloc_ok (env_ok [3]) \<and>
   lock_ok (env_ok [3]) \<and> pin (env_ok [3]) = PinAvail [3] \<and>
   window 0x2fff 4 = (4095, 4, 2) \<and> length [3 :: page] < unat (2 :: size_t) \<and>
   (case farfetch (env_ok [3]) FAR_READ 0x1000 42 0x2fff 4 mem_ex of (r, m', evs) \<Rightarrow>
      copy_faults evs = [] \<and> pinned_pages evs = [3] \<and> within_pages [3] evs \<and>
      r = 1 \<and> sint r = 1 \<and> sint r \<le> 4 \<and> bytes_copied evs = 1 \<and> \<not> IS_ERR_VALUE r)"
proof -
  have e: "euid (env_ok [3]) = 0" "pid_task (env_ok [3]) 42 = Some 7"
    "task_mm (env_ok [3]) 7 = Some 9" "kmalloc_ok (env_ok [3])"
    "lock_ok (env_ok [3])" "pin (env_ok [3]) = PinAvail [3]"
    by (simp_all add: env_ok_def)
  have w: "window 0x2fff 4 = (4095, 4, 2)" by (simp add: run_defs)
  have k: "length [3 :: page] < unat (2 :: size_t)" by simp
  have run: "farfetch (env_ok [3]) FAR_READ 0x1000 42 0x2fff 4 mem_ex =
     (1, mem_ex\<lparr>umem := (\<lambda>a. if a = 0x1000 then Some 0x5a else umem mem_ex a)\<rparr>,
      [FindGetPid 42, GetPidTask, PutPid, GetTaskMm (Some 9), PutTaskStruct,
       KmallocArray 2 True, MmapReadLockKillable True,
       GetUserPages 0x2fff 2 False [3], MmapReadUnlock, Mmput 9,
       Kmap 3, CopyToUser 0x1000 3 4095 1 0, Kunmap 3, PutPage 3, Kfree])"
    using IS_ERR_VALUE_1 by (simp add: run_defs fun_eq_iff unat_eq_0)
  have c: "copy_faults (snd (snd (farfetch (env_ok [3]) FAR_READ 0x1000 42 0x2fff 4 mem_ex))) = []"
    by (simp add: run filt_Cons)
  from partial_pin_value [where cmd = FAR_READ and addr = "0x1000" and m = mem_ex, OF e w k]
    e w k c
  show ?thesis by (simp add: run filt_Cons bytes_copied_Cons PAGE_SIZE_def)
qed

text \<open>
  C7. For every request that reaches the loop and completes it without error (no copy
  faults, and the command is \<^verbatim>\<open>FAR_READ\<close> or \<^verbatim>\<open>FAR_WRITE\<close> or no page is pinned), the
  number of bytes copied equals the length the call returns, which is the clamped length,
  revised to \<open>actual_count * PAGE_SIZE - page_off\<close> after a partial pin. The copies are
  those of \<open>chunks\<close>: \<open>min(remaining_length, page_size - offset_within_page)\<close> bytes per
  page, at the leading offset on the first page and at offset 0 on the following ones;
  no \<^verbatim>\<open>WARN_ON\<close> fires. The pin call is taken to honour the contract of the kernel's
  \<^verbatim>\<open>get_user_pages_remote\<close>, which answers 0 only when asked for 0 pages; what the
  proof needs of it is less: a page is available or the address is page-aligned
  (\<open>ps \<noteq> [] \<or> page_off = 0\<close>).
\<close>

theorem loop_total_is_length:
  assumes "euid e = 0" and "pid_task e target_pid = Some t" and "task_mm e t = Some h"
    and "kmalloc_ok e" and "lock_ok e" and "pin e = PinAvail ps"
    and w: "window target_addr len0 = (page_off, len, nr)"
    and contract: "ps \<noteq> [] \<or> page_off = 0"
  shows "case farfetch e cmd addr target_pid target_addr len0 m of (r, m', evs) \<Rightarrow>
           copy_faults evs = [] \<and>
           (cmd = FAR_READ \<or> cmd = FAR_WRITE \<or> pinned_pages evs = []) \<longrightarrow>
             r = (if length (pinned_pages evs) < unat nr
                  then of_nat (length (pinned_pages evs)) * PAGE_SIZE - page_off else len) \<and>
             bytes_copied evs = unat r \<and>
             copy_steps evs = chunks (length (pinned_pages evs)) (unat page_off) (unat r) \<and>
             warnings evs = []"
proof -
  note wf = window_facts [OF w]
  have nb: "unat nr \<le> 524288" using w by (rule window_nr_le)
  define pages where "pages = take (unat nr) ps"
  have lp: "length pages \<le> unat nr" by (simp add: pages_def)
  have ok: "pages \<noteq> [] \<or> page_off = 0"
  proof (cases "nr = 0")
    case True
    then have "(unat page_off + unat len + 4095) div 4096 = 0" using wf(5) by simp
    then have "unat page_off = 0" by simp
    then show ?thesis by (simp add: unat_eq_0)
  next
    case False
    then have "0 < unat nr" by (simp add: unat_gt_0)
    then have "ps \<noteq> [] \<Longrightarrow> pages \<noteq> []" by (simp add: pages_def)
    with contract show ?thesis by blast
  qed
  obtain r m' evs where f: "farfetch e cmd addr target_pid target_addr len0 m = (r, m', evs)"
    by (metis prod_cases3)
  obtain r1 m1 evs1 where
    p: "farfetch_pinned cmd addr page_off len nr (of_nat (length pages)) pages m = (r1, m1, evs1)"
    by (metis prod_cases3)
  from farfetch_ok_path [OF assms(1-6) w, of cmd addr m] f
  have r: "r = r1"
    and e: "evs = ([FindGetPid target_pid, GetPidTask, PutPid, GetTaskMm (Some h), PutTaskStruct,
           KmallocArray (unat nr) True, MmapReadLockKillable True,
           GetUserPages target_addr (unat nr) (cmd = FAR_WRITE) pages]
          @ (if pin_locked e then [MmapReadUnlock] else []) @ [Mmput h]) @ evs1"
    by (simp_all add: p flip: pages_def del: length_take)
  have pp: "pinned_pages evs = pages"
    using e pinned_events(1) [OF p] by (simp add: proj_Cons)
  have cf: "copy_faults evs = copy_faults evs1" using e by (simp add: filt_Cons)
  have bc: "bytes_copied evs = bytes_copied evs1" using e by (simp add: bytes_copied_Cons)
  have cs: "copy_steps evs = copy_steps evs1" using e by (simp add: copy_steps_Cons)
  have wa: "warnings evs = warnings evs1" using e by (simp add: warnings_Cons)
  have main: "r = (if length pages < unat nr
                  then of_nat (length pages) * PAGE_SIZE - page_off else len) \<and>
             bytes_copied evs = unat r \<and>
             copy_steps evs = chunks (length pages) (unat page_off) (unat r) \<and>
             warnings evs = []"
    if s1: "copy_faults evs = []" and s2: "cmd = FAR_READ \<or> cmd = FAR_WRITE \<or> pages = []"
  proof -
    note ps = pinned_success [OF wf(2) nb lp p s1 [unfolded cf] s2]
    have rv: "r = (if length pages < unat nr
                  then of_nat (length pages) * PAGE_SIZE - page_off else len)"
      using ps(1) by (simp add: r)
    from ok have "0 < length pages \<or> page_off = 0" by auto
    from revised_len_small [OF wf(2) wf(5) nb this] wf(3)
    have "unat r \<le> 2147479552" by (simp add: rv)
    then have ne: "\<not> IS_ERR_VALUE r" by (rule small_not_err)
    note pt = pinned_total [OF wf(2,3,5) lp ok p]
    from pt(2) ne have b: "bytes_copied evs = unat r" by (simp add: r bc)
    from ps(2) have c: "copy_steps evs = chunks (length pages) (unat page_off) (unat r)"
      by (simp add: r cs)
    from pt(1) have d: "warnings evs = []" by (simp add: wa)
    show ?thesis using rv b c d by blast
  qed
  have main': "copy_faults evs = [] \<and>
           (cmd = FAR_READ \<or> cmd = FAR_WRITE \<or> pinned_pages evs = []) \<longrightarrow>
             r = (if length (pinned_pages evs) < unat nr
                  then of_nat (length (pinned_pages evs)) * PAGE_SIZE - page_off else len) \<and>
             bytes_copied evs = unat r \<and>
             copy_steps evs = chunks (length (pinned_pages evs)) (unat page_off) (unat r) \<and>
             warnings evs = []"
    unfolding pp using main by blast
  show ?thesis unfolding f prod.case by (rule main')
qed

theorem loop_total_is_length_witness:
  "euid (env_ok [3, 4]) = 0 \<and> pid_task (env_ok [3, 4]) 42 = Some 7 \<and>
   task_mm (env_ok [3, 4]) 7 = Some 9 \<and> kmalloc_ok (env_ok [3, 4]) \<and>
   lock_ok (env_ok [3, 4]) \<and> pin (env_ok [3, 4]) = PinAvail [3, 4] \<and>
   window 0x2fff 2 = (4095, 2, 2) \<and> [3, 4 :: page] \<noteq> [] \<and>
   (case farfetch (env_ok [3, 4]) FAR_READ 0x1000 42 0x2fff 2 mem_buf of (r, m', evs) \<Rightarrow>
      copy_faults evs = [] \<and> pinned_pages evs = [3, 4] \<and>
      r = 2 \<and> bytes_copied evs = 2 \<and>
      copy_steps evs = [(4095, 1), (0, 1)] \<and>
      chunks 2 4095 2 = [(4095, 1), (0, 1)] \<and> warnings evs = [])"
proof -
  have e: "euid (env_ok [3, 4]) = 0" "pid_task (env_ok [3, 4]) 42 = Some 7"
    "task_mm (env_ok [3, 4]) 7 = Some 9" "kmalloc_ok (env_ok [3, 4])"
    "lock_ok (env_ok [3, 4])" "pin (env_ok [3, 4]) = PinAvail [3, 4]"
    by (simp_all add: env_ok_def)
  have w: "window 0x2fff 2 = (4095, 2, 2)" by (simp add: run_defs)
  have k: "[3, 4 :: page] \<noteq> [] \<or> (4095 :: size_t) = 0" by simp
  have ev: "snd (snd (farfetch (env_ok [3, 4]) FAR_READ 0x1000 42 0x2fff 2 mem_buf)) =
      [FindGetPid 42, GetPidTask, PutPid, GetTaskMm (Some 9), PutTaskStruct,
       KmallocArray 2 True, MmapReadLockKillable True,
       GetUserPages 0x2fff 2 False [3, 4], MmapReadUnlock, Mmput 9,
       Kmap 3, CopyToUser 0x1000 3 4095 1 0, Kunmap 3,
       Kmap 4, CopyToUser 0x1001 4 0 1 0, Kunmap 4, PutPage 3, PutPage 4, Kfree]"
    by (simp add: run_defs mem_buf_def)
  have c: "copy_faults (snd (snd (farfetch (env_ok [3, 4]) FAR_READ 0x1000 42 0x2fff 2 mem_buf))) = []"
    and pp: "pinned_pages (snd (snd (farfetch (env_ok [3, 4]) FAR_READ 0x1000 42 0x2fff 2 mem_buf))) = [3, 4]"
    by (simp_all add: ev filt_Cons proj_Cons)
  have ch: "chunks 2 4095 2 = [(4095, 1), (0, 1)]"
    by (simp add: numeral_2_eq_2 unat_PAGE_SIZE)
  from loop_total_is_length [where cmd = FAR_READ and addr = "0x1000" and m = mem_buf, OF e w k]
    e w c pp ch
  show ?thesis by (simp add: PAGE_SIZE_def split: prod.splits)
qed

end
